theory Spec2Isabelle
  imports Main "HOL-Library.Sublist"
begin

section \<open>Go strings as byte lists\<close>

text \<open>
  A Go \<open>string\<close> is a sequence of bytes; the library functions used by package \<open>ui\<close>
  read it as UTF-8. The model keeps the bytes (\<open>string\<close> is \<open>char list\<close>) and writes
  out the encodings of the runes the library treats specially.
\<close>

definition asciiSpace :: "string list" where
  \<comment> \<open>\<open>'\t', '\n', '\v', '\f', '\r', ' '\<close>\<close>
  "asciiSpace = [[CHR 0x09], [CHR 0x0A], [CHR 0x0B], [CHR 0x0C], [CHR 0x0D], [CHR 0x20]]"

definition unicodeSpace :: "string list" where
  \<comment> \<open>UTF-8 of the non-ASCII runes of \<open>unicode.IsSpace\<close>: U+0085, U+00A0, U+1680,
      U+2000..U+200A, U+2028, U+2029, U+202F, U+205F, U+3000\<close>
  "unicodeSpace =
    [[CHR 0xC2, CHR 0x85], [CHR 0xC2, CHR 0xA0], [CHR 0xE1, CHR 0x9A, CHR 0x80],
     [CHR 0xE2, CHR 0x80, CHR 0x80], [CHR 0xE2, CHR 0x80, CHR 0x81],
     [CHR 0xE2, CHR 0x80, CHR 0x82], [CHR 0xE2, CHR 0x80, CHR 0x83],
     [CHR 0xE2, CHR 0x80, CHR 0x84], [CHR 0xE2, CHR 0x80, CHR 0x85],
     [CHR 0xE2, CHR 0x80, CHR 0x86], [CHR 0xE2, CHR 0x80, CHR 0x87],
     [CHR 0xE2, CHR 0x80, CHR 0x88], [CHR 0xE2, CHR 0x80, CHR 0x89],
     [CHR 0xE2, CHR 0x80, CHR 0x8A], [CHR 0xE2, CHR 0x80, CHR 0xA8],
     [CHR 0xE2, CHR 0x80, CHR 0xA9], [CHR 0xE2, CHR 0x80, CHR 0xAF],
     [CHR 0xE2, CHR 0x81, CHR 0x9F], [CHR 0xE3, CHR 0x80, CHR 0x80]]"

definition spaceRunes :: "string list" where
  "spaceRunes = asciiSpace @ unicodeSpace"

definition runeLen :: "string list \<Rightarrow> string \<Rightarrow> nat" where
  \<comment> \<open>number of bytes of the rune of \<open>encs\<close> that \<open>s\<close> starts with, 0 when there is none\<close>
  "runeLen encs s = (case find (\<lambda>e. prefix e s) encs of None \<Rightarrow> 0 | Some e \<Rightarrow> length e)"

function stripRunes :: "string list \<Rightarrow> string \<Rightarrow> string" where
  "stripRunes encs s =
     (if runeLen encs s = 0 then s else stripRunes encs (drop (runeLen encs s) s))"
  by pat_completeness auto
termination
proof (relation "measure (\<lambda>(encs, s). length s)", goal_cases)
  case 1
  show ?case by simp
next
  case (2 encs s)
  then obtain e where e: "find (\<lambda>e. prefix e s) encs = Some e" "e \<noteq> []"
    by (auto simp: runeLen_def split: option.splits)
  then have "prefix e s"
    by (auto simp: find_Some_iff)
  with e(2) have "s \<noteq> []"
    by auto
  with 2 show ?case
    by simp
qed

definition TrimLeftSpace :: "string \<Rightarrow> string" where
  "TrimLeftSpace s = stripRunes spaceRunes s"

definition TrimRightSpace :: "string \<Rightarrow> string" where
  \<comment> \<open>the last rune is a space exactly when the string ends with its encoding\<close>
  "TrimRightSpace s = rev (stripRunes (map rev spaceRunes) (rev s))"

definition TrimSpace :: "string \<Rightarrow> string" where
  \<comment> \<open>\<open>strings.TrimSpace\<close>\<close>
  "TrimSpace s = TrimRightSpace (TrimLeftSpace s)"

definition HasPrefix :: "string \<Rightarrow> string \<Rightarrow> bool" where
  "HasPrefix s p = prefix p s"

definition TrimPrefix :: "string \<Rightarrow> string \<Rightarrow> string" where
  "TrimPrefix s p = (if HasPrefix s p then drop (length p) s else s)"

primrec SplitLines :: "string \<Rightarrow> string list" where
  \<comment> \<open>\<open>strings.Split(s, "\n")\<close>: always at least one piece\<close>
  "SplitLines [] = [[]]"
| "SplitLines (c # s) =
     (if c = CHR 0x0A then [] # SplitLines s
      else (case SplitLines s of [] \<Rightarrow> [[c]] | l # ls \<Rightarrow> (c # l) # ls))"

function FieldsFrom :: "string \<Rightarrow> string \<Rightarrow> string list" where
  \<comment> \<open>\<open>strings.Fields\<close>, with the field being collected in \<open>cur\<close>: maximal runs of
      bytes between space runes\<close>
  "FieldsFrom cur s =
     (if s = [] then (if cur = [] then [] else [cur])
      else if runeLen spaceRunes s \<noteq> 0
      then (if cur = [] then [] else [cur]) @ FieldsFrom [] (drop (runeLen spaceRunes s) s)
      else FieldsFrom (cur @ [hd s]) (tl s))"
  by pat_completeness auto
termination
  by (relation "measure (\<lambda>(cur, s). length s)") auto

definition Fields :: "string \<Rightarrow> string list" where
  "Fields s = FieldsFrom [] s"

definition lowerASCII :: "char \<Rightarrow> char" where
  "lowerASCII c =
     (if (65::nat) \<le> of_char c \<and> of_char c \<le> (90::nat)
      then char_of (of_char c + (32::nat)) else c)"

definition ToLower :: "(string \<Rightarrow> string) \<Rightarrow> string \<Rightarrow> string" where
  \<comment> \<open>\<open>strings.ToLower\<close>: bytewise on an ASCII string; a string with a byte from 0x80 on
      goes through the Unicode case tables of the standard library, the parameter
      \<open>unicodeLower\<close> (\<open>strings.Map(unicode.ToLower, s)\<close>)\<close>
  "ToLower unicodeLower s =
     (if list_all (\<lambda>c. of_char c < (128::nat)) s then map lowerASCII s else unicodeLower s)"

section \<open>Regular expressions of package regexp\<close>

text \<open>
  The two patterns of \<open>ui.go\<close> use literals, alternation, optional groups, one capturing
  group and the repetition of a character class. \<open>run\<close> lists the ways a pattern matches
  at the start of a string in the order a backtracking search finds them (the leftmost-first
  rule of package \<open>regexp\<close>): the left alternative first, an optional part taken before
  it is skipped, a repetition as long as possible first.
\<close>

datatype cclass = Whitespace | NotWhitespace | Digit

fun inClass :: "cclass \<Rightarrow> char \<Rightarrow> bool" where
  \<comment> \<open>\<open>\s\<close> is \<open>[\t\n\f\r ]\<close>, \<open>\S\<close> its complement, \<open>\d\<close> is \<open>[0-9]\<close>\<close>
  "inClass Whitespace c = (c \<in> set [CHR 0x09, CHR 0x0A, CHR 0x0C, CHR 0x0D, CHR 0x20])"
| "inClass NotWhitespace c = (c \<notin> set [CHR 0x09, CHR 0x0A, CHR 0x0C, CHR 0x0D, CHR 0x20])"
| "inClass Digit c = (c \<in> set ''0123456789'')"

datatype regex =
    Lit string
  | Cat regex regex
  | Or regex regex
  | Opt regex
  | Star cclass
  | Plus cclass
  | Group regex

fun run :: "regex \<Rightarrow> string \<Rightarrow> string option \<Rightarrow> (string \<times> string option) list" where
  \<comment> \<open>the rest of the input and the text of the capturing group, for each way to match\<close>
  "run (Lit l) s g = (if prefix l s then [(drop (length l) s, g)] else [])"
| "run (Cat a b) s g = concat (map (\<lambda>(s', g'). run b s' g') (run a s g))"
| "run (Or a b) s g = run a s g @ run b s g"
| "run (Opt a) s g = run a s g @ [(s, g)]"
| "run (Star k) s g =
     map (\<lambda>n. (drop n s, g)) (rev [0 ..< Suc (length (takeWhile (inClass k) s))])"
| "run (Plus k) s g =
     map (\<lambda>n. (drop n s, g)) (rev [1 ..< Suc (length (takeWhile (inClass k) s))])"
| "run (Group a) s g =
     map (\<lambda>(s', g'). (s', Some (take (length s - length s') s))) (run a s g)"

fun FindStringSubmatch :: "regex \<Rightarrow> string \<Rightarrow> string list" where
  \<comment> \<open>the leftmost match: the matched text and the text of group 1; \<open>[]\<close> is Go's nil\<close>
  "FindStringSubmatch r s =
     (case run r s None of
        (rest, g) # _ \<Rightarrow>
          [take (length s - length rest) s, (case g of None \<Rightarrow> [] | Some t \<Rightarrow> t)]
      | [] \<Rightarrow> (case s of [] \<Rightarrow> [] | _ # s' \<Rightarrow> FindStringSubmatch r s'))"

definition Cats :: "regex list \<Rightarrow> regex" where
  "Cats rs = foldr Cat rs (Lit [])"

text \<open>
  What a pattern matches, without the search: the pairs of a matched text and the
  capture after it, given the capture before.
\<close>

fun sem :: "regex \<Rightarrow> string option \<Rightarrow> (string \<times> string option) set" where
  "sem (Lit l) g = {(l, g)}"
| "sem (Cat a b) g = {(u @ v, g2) | u v g1 g2. (u, g1) \<in> sem a g \<and> (v, g2) \<in> sem b g1}"
| "sem (Or a b) g = sem a g \<union> sem b g"
| "sem (Opt a) g = sem a g \<union> {([], g)}"
| "sem (Star k) g = {(u, g) | u. list_all (inClass k) u}"
| "sem (Plus k) g = {(u, g) | u. u \<noteq> [] \<and> list_all (inClass k) u}"
| "sem (Group a) g = {(u, Some u) | u g'. (u, g') \<in> sem a g}"

definition occurrence :: "regex \<Rightarrow> string \<Rightarrow> string \<Rightarrow> string option \<Rightarrow> bool" where
  \<comment> \<open>the pattern matches the piece \<open>u\<close> of \<open>s\<close>, with capture \<open>g\<close>\<close>
  "occurrence r s u g = (\<exists>pre post. s = pre @ u @ post \<and> (u, g) \<in> sem r None)"

definition groupText :: "string option \<Rightarrow> string" where
  "groupText g = (case g of None \<Rightarrow> [] | Some t \<Rightarrow> t)"

section \<open>Response parser\<close>

record Result =
  Command :: string
  Explanation :: string

definition emptyResult :: Result where
  \<comment> \<open>\<open>var result Result\<close>: the zero value\<close>
  "emptyResult = \<lparr>Command = [], Explanation = []\<rparr>"

definition parseLine :: "Result \<Rightarrow> string \<Rightarrow> Result" where
  \<comment> \<open>the body of the loop of \<open>ParseResponse\<close>\<close>
  "parseLine result line0 =
     (let line = TrimSpace line0 in
      if HasPrefix line ''COMMAND:''
      then result\<lparr>Command := TrimSpace (TrimPrefix line ''COMMAND:'')\<rparr>
      else if HasPrefix line ''EXPLANATION:''
      then result\<lparr>Explanation := TrimSpace (TrimPrefix line ''EXPLANATION:'')\<rparr>
      else result)"

definition ParseResponse :: "string \<Rightarrow> Result" where
  "ParseResponse response = foldl parseLine emptyResult (SplitLines response)"

subsection \<open>The parser in the words of the specification\<close>

text \<open>
  The words of the specification: the lines of the response with surrounding whitespace
  removed, and among them the last one that starts with a given prefix.
\<close>

definition trimmedLines :: "string \<Rightarrow> string list" where
  "trimmedLines response = map TrimSpace (SplitLines response)"

definition lastLineWith :: "string \<Rightarrow> string list \<Rightarrow> string option" where
  "lastLineWith p ls =
     (case filter (\<lambda>l. HasPrefix l p) ls of [] \<Rightarrow> None | x # xs \<Rightarrow> Some (last (x # xs)))"

definition tagged :: "string \<Rightarrow> bool" where
  \<comment> \<open>a line that one of the two branches of the loop acts on\<close>
  "tagged l =
     (HasPrefix (TrimSpace l) ''COMMAND:'' \<or> HasPrefix (TrimSpace l) ''EXPLANATION:'')"

section \<open>Command executor\<close>

definition notFoundRe :: regex where
  \<comment> \<open>\<open>(?:sh|bash):\s*(?:line \d+:\s*)?(\S+):\s*(?:command )?not found\<close>\<close>
  "notFoundRe =
     Cats [Or (Lit ''sh'') (Lit ''bash''), Lit '':'', Star Whitespace,
           Opt (Cats [Lit ''line '', Plus Digit, Lit '':'', Star Whitespace]),
           Group (Plus NotWhitespace), Lit '':'', Star Whitespace,
           Opt (Lit ''command ''), Lit ''not found'']"

definition notFoundZshRe :: regex where
  \<comment> \<open>\<open>zsh:\s*command not found:\s*(\S+)\<close>\<close>
  "notFoundZshRe =
     Cats [Lit ''zsh:'', Star Whitespace, Lit ''command not found:'', Star Whitespace,
           Group (Plus NotWhitespace)]"

definition parseNotFoundCommand :: "string \<Rightarrow> string \<Rightarrow> string" where
  "parseNotFoundCommand stderr command =
     (let m = FindStringSubmatch notFoundRe stderr in
      if length m > 1 then m ! 1
      else let m = FindStringSubmatch notFoundZshRe stderr in
      if length m > 1 then m ! 1
      else let fields = Fields command in
      if length fields > 0 then fields ! 0
      else [])"

datatype error =
    ExitError int
  | OtherError string
  | Wrapped string error

fun asExitError :: "error \<Rightarrow> int option" where
  \<comment> \<open>\<open>errors.As(err, &exitErr)\<close> followed by \<open>exitErr.ExitCode()\<close>: the first
      \<open>*exec.ExitError\<close> in the chain of wrapped errors\<close>
  "asExitError (ExitError code) = Some code"
| "asExitError (OtherError msg) = None"
| "asExitError (Wrapped msg e) = asExitError e"

text \<open>
  The world outside the package. \<open>ChildRun\<close> is what running a child process to its end
  gives: what it wrote to its two output streams and the error of \<open>cmd.Run\<close>. \<open>Host\<close>
  holds what the package reads from its platform: \<open>runtime.GOOS\<close>, whether
  \<open>exec.LookPath\<close> finds a name (no error), the rendering of \<open>hintStyle\<close>, the Unicode
  case tables, and the behaviour of \<open>sh -c\<close> on a command. \<open>World\<close> is the state the
  package changes: the two output streams of the process and, as a record of what has
  been run, the commands handed to the shell.
\<close>

record ChildRun =
  childStdout :: string
  childStderr :: string
  runErr :: "error option"

record Host =
  GOOS :: string
  LookPath :: "string \<Rightarrow> bool"
  hintRender :: "string \<Rightarrow> string"
  unicodeLower :: "string \<Rightarrow> string"
  sh :: "string \<Rightarrow> ChildRun"

record World =
  osStdout :: string
  osStderr :: string
  executed :: "string list"

definition installSuggestion :: "Host \<Rightarrow> string \<Rightarrow> string" where
  "installSuggestion h cmdName =
     (if GOOS h = ''darwin'' then ''Install with: brew install '' @ cmdName
      else if GOOS h = ''linux'' then
        (if LookPath h ''apt'' then ''Install with: sudo apt install '' @ cmdName
         else if LookPath h ''dnf'' then ''Install with: sudo dnf install '' @ cmdName
         else if LookPath h ''pacman'' then ''Install with: sudo pacman -S '' @ cmdName
         else ''Install '' @ cmdName @ '' using your system package manager'')
      else ''Install '' @ cmdName @ '' using your system package manager'')"

definition hintText :: "Host \<Rightarrow> string \<Rightarrow> string" where
  \<comment> \<open>the three writes to \<open>os.Stderr\<close> of the not-found branch\<close>
  "hintText h cmdName =
     [CHR 0x0A] @
     ''  '' @ hintRender h ''Hint:'' @ '' '' @ cmdName @ '' is not installed.'' @ [CHR 0x0A] @
     ''  '' @ installSuggestion h cmdName @ [CHR 0x0A]"

definition RunCommand :: "Host \<Rightarrow> string \<Rightarrow> World \<Rightarrow> World \<times> error option" where
  "RunCommand h command w =
     (let w1 = w\<lparr>osStdout := osStdout w @ [CHR 0x0A]\<rparr>;
          child = sh h command;
          stderrBuf = childStderr child;
          w2 = w1\<lparr>osStdout := osStdout w1 @ childStdout child,
                  osStderr := osStderr w1 @ childStderr child,
                  executed := executed w1 @ [command]\<rparr>;
          err = runErr child
      in case err of
           None \<Rightarrow> (w2, err)
         | Some e \<Rightarrow>
             if asExitError e = Some 127 then
               (let cmdName = parseNotFoundCommand stderrBuf command in
                if cmdName \<noteq> [] then (w2\<lparr>osStderr := osStderr w2 @ hintText h cmdName\<rparr>, err)
                else (w2, err))
             else (w2, err))"

definition ConfirmAndRun ::
  "Host \<Rightarrow> error + string \<Rightarrow> string \<Rightarrow> World \<Rightarrow> World \<times> error option" where
  \<comment> \<open>\<open>read\<close> is what \<open>reader.ReadString('\n')\<close> returns: the line, or an error\<close>
  "ConfirmAndRun h read command w =
     (let w1 = w\<lparr>osStdout := osStdout w @ ''  Run this command? [y/N] ''\<rparr> in
      case read of
        Inl err \<Rightarrow> (w1, Some (Wrapped ''reading input: '' err))
      | Inr input0 \<Rightarrow>
          (let input = TrimSpace (ToLower (unicodeLower h) input0) in
           if input \<noteq> ''y'' \<and> input \<noteq> ''yes'' then (w1, None)
           else RunCommand h command w1))"

definition answer :: "Host \<Rightarrow> string \<Rightarrow> string" where
  \<comment> \<open>the line read, as \<open>ConfirmAndRun\<close> compares it: lower-cased and trimmed\<close>
  "answer h input = TrimSpace (ToLower (unicodeLower h) input)"

definition prompted :: "World \<Rightarrow> World" where
  \<comment> \<open>the world after the prompt has been printed\<close>
  "prompted w = w\<lparr>osStdout := osStdout w @ ''  Run this command? [y/N] ''\<rparr>"

subsection \<open>The not-found patterns in words\<close>

text \<open>
  What the two patterns accept, written out: the pieces of a match and the token that
  the capturing group holds.
\<close>

definition spaces :: "string \<Rightarrow> bool" where
  "spaces ws = list_all (inClass Whitespace) ws"

definition token :: "string \<Rightarrow> bool" where
  "token t = (t \<noteq> [] \<and> list_all (inClass NotWhitespace) t)"

definition digits :: "string \<Rightarrow> bool" where
  "digits ds = (ds \<noteq> [] \<and> list_all (inClass Digit) ds)"

definition shellName :: "string \<Rightarrow> bool" where
  "shellName h = (h = ''sh'' \<or> h = ''bash'')"

definition lineSegment :: "string \<Rightarrow> bool" where
  "lineSegment ln =
     (ln = [] \<or> (\<exists>ds ws. ln = ''line '' @ ds @ '':'' @ ws \<and> digits ds \<and> spaces ws))"

definition optCommand :: "string \<Rightarrow> bool" where
  "optCommand c = (c = [] \<or> c = ''command '')"

definition shNotFound :: "string \<Rightarrow> string \<Rightarrow> bool" where
  \<comment> \<open>\<open>w\<close> is a message of sh or bash about the missing command \<open>t\<close>\<close>
  "shNotFound w t =
     (\<exists>h ws1 ln ws2 c.
        w = h @ '':'' @ ws1 @ ln @ t @ '':'' @ ws2 @ c @ ''not found'' \<and>
        shellName h \<and> spaces ws1 \<and> lineSegment ln \<and> token t \<and> spaces ws2 \<and> optCommand c)"

definition zshNotFound :: "string \<Rightarrow> string \<Rightarrow> bool" where
  \<comment> \<open>\<open>w\<close> is a message of zsh about the missing command \<open>t\<close>\<close>
  "zshNotFound w t =
     (\<exists>ws1 ws2.
        w = ''zsh:'' @ ws1 @ ''command not found:'' @ ws2 @ t \<and>
        spaces ws1 \<and> spaces ws2 \<and> token t)"

definition inText :: "(string \<Rightarrow> string \<Rightarrow> bool) \<Rightarrow> string \<Rightarrow> string \<Rightarrow> bool" where
  \<comment> \<open>the text \<open>s\<close> contains a message of the given form about \<open>t\<close>\<close>
  "inText form s t = (\<exists>pre w post. s = pre @ w @ post \<and> form w t)"

definition messageAt :: "(string \<Rightarrow> string \<Rightarrow> bool) \<Rightarrow> string \<Rightarrow> nat \<Rightarrow> string \<Rightarrow> bool" where
  \<comment> \<open>a message of the given form about \<open>t\<close> starts at position \<open>k\<close> of the text \<open>s\<close>\<close>
  "messageAt form s k t = (k \<le> length s \<and> (\<exists>w post. drop k s = w @ post \<and> form w t))"

definition firstMessageAt :: "(string \<Rightarrow> string \<Rightarrow> bool) \<Rightarrow> string \<Rightarrow> nat \<Rightarrow> bool" where
  \<comment> \<open>\<open>k\<close> is the leftmost position of \<open>s\<close> at which a message of the given form starts\<close>
  "firstMessageAt form s k =
     ((\<exists>t. messageAt form s k t) \<and> (\<forall>j<k. \<forall>t. \<not> messageAt form s j t))"

definition firstField :: "string \<Rightarrow> string" where
  \<comment> \<open>the first whitespace-delimited token of a string, empty when there is none\<close>
  "firstField s = (case Fields s of [] \<Rightarrow> [] | f # _ \<Rightarrow> f)"

definition claimed_notFoundRe :: regex where
  \<comment> \<open>the sh/bash pattern as the specification words it: \<open>: command not found\<close> after
      the token, the word \<open>command\<close> not optional\<close>
  "claimed_notFoundRe =
     Cats [Or (Lit ''sh'') (Lit ''bash''), Lit '':'', Star Whitespace,
           Opt (Cats [Lit ''line '', Plus Digit, Lit '':'', Star Whitespace]),
           Group (Plus NotWhitespace), Lit '':'', Star Whitespace,
           Lit ''command not found'']"

definition claimed_parseNotFoundCommand :: "string \<Rightarrow> string \<Rightarrow> string" where
  \<comment> \<open>\<open>parseNotFoundCommand\<close> with the sh/bash pattern of the specification's words\<close>
  "claimed_parseNotFoundCommand stderr command =
     (let m = FindStringSubmatch claimed_notFoundRe stderr in
      if length m > 1 then m ! 1
      else let m = FindStringSubmatch notFoundZshRe stderr in
      if length m > 1 then m ! 1
      else firstField command)"

section \<open>Shell history writer\<close>

text \<open>
  The functions \<open>shellHistoryFile\<close>, \<open>isZshExtendedHistory\<close> and \<open>addToShellHistory\<close>
  are called by the tests of package \<open>ui\<close>; their definitions follow the specification.
  The file system is a map from paths to contents; the environment gives the variables
  the way \<open>os.Getenv\<close> does, empty when unset.
\<close>

type_synonym files = "string \<rightharpoonup> string"

record ShellEnv =
  SHELL :: string
  HISTFILE :: string
  HOME :: string

definition shellHistoryFile :: "ShellEnv \<Rightarrow> string \<Rightarrow> string" where
  \<comment> \<open>Modelled from the spec: \<open>shellHistoryFile\<close> is not among the sources. The
      override is used verbatim; otherwise zsh and bash have their default files under
      the home directory; any other shell has no history file (the empty path).\<close>
  "shellHistoryFile e shell =
     (if HISTFILE e \<noteq> [] then HISTFILE e
      else if suffix ''zsh'' shell then HOME e @ ''/.zsh_history''
      else if suffix ''bash'' shell then HOME e @ ''/.bash_history''
      else [])"

definition zshExtendedRe :: regex where
  \<comment> \<open>Modelled from the spec: the pattern \<open>: <digits>:<digits>;<anything>\<close> of a line of
      the extended zsh format, matched from the start of the line.\<close>
  "zshExtendedRe = Cats [Lit '': '', Plus Digit, Lit '':'', Plus Digit, Lit '';'']"

definition isExtendedLine :: "string \<Rightarrow> bool" where
  \<comment> \<open>Modelled from the spec: a line matches the extended pattern.\<close>
  "isExtendedLine l = (run zshExtendedRe l None \<noteq> [])"

definition isZshExtendedHistory :: "files \<Rightarrow> string \<Rightarrow> bool" where
  \<comment> \<open>Modelled from the spec: \<open>isZshExtendedHistory\<close> is not among the sources. A file
      is zsh-extended when at least one of its lines matches the extended pattern; a file
      that does not exist is plain.\<close>
  "isZshExtendedHistory fs path =
     (case fs path of
        None \<Rightarrow> False
      | Some content \<Rightarrow> list_ex isExtendedLine (SplitLines content))"

fun decimal :: "nat \<Rightarrow> string" where
  \<comment> \<open>a number in decimal, as \<open>%d\<close> prints it\<close>
  "decimal n =
     (if n < 10 then [''0123456789'' ! n]
      else decimal (n div 10) @ [''0123456789'' ! (n mod 10)])"

definition historyEntry :: "bool \<Rightarrow> nat \<Rightarrow> string \<Rightarrow> string" where
  \<comment> \<open>Modelled from the spec: the line appended for a command, without its newline:
      \<open>: <epoch-seconds>:0;<command>\<close> for a zsh-extended file, the command itself for
      a plain one.\<close>
  "historyEntry extended now command =
     (if extended then '': '' @ decimal now @ '':0;'' @ command else command)"

definition addToShellHistory ::
  "ShellEnv \<Rightarrow> (string \<Rightarrow> bool) \<Rightarrow> nat \<Rightarrow> string \<Rightarrow> files \<Rightarrow> files" where
  \<comment> \<open>Modelled from the spec: \<open>addToShellHistory\<close> is not among the sources. \<open>writable\<close>
      tells whether the file can be opened for appending, \<open>now\<close> is the clock in seconds.
      With no history file, or one that cannot be written, nothing happens; otherwise
      the entry and a newline are appended to what the file holds.\<close>
  "addToShellHistory e writable now command fs =
     (let histFile = shellHistoryFile e (SHELL e) in
      if histFile = [] then fs
      else if \<not> writable histFile then fs
      else fs(histFile \<mapsto>
             (case fs histFile of None \<Rightarrow> [] | Some content \<Rightarrow> content) @
             historyEntry (isZshExtendedHistory fs histFile) now command @ [CHR 0x0A]))"

definition extendedLine :: "string \<Rightarrow> bool" where
  \<comment> \<open>the extended pattern in words: \<open>: \<close>, digits, \<open>:\<close>, digits, \<open>;\<close>, anything\<close>
  "extendedLine l =
     (\<exists>d1 d2 rest. l = '': '' @ d1 @ '':'' @ d2 @ '';'' @ rest \<and> digits d1 \<and> digits d2)"

section \<open>Examples\<close>

text \<open>Concrete hosts, worlds, environments and history files, for evaluating the model.\<close>

definition exampleChild :: "string \<Rightarrow> ChildRun" where
  \<comment> \<open>a shell for which \<open>ss\<close> is missing, a blank command fails with status 127 and an
      unusual message, and every other command succeeds silently\<close>
  "exampleChild command =
     (if command = ''ss -tuln''
      then \<lparr>childStdout = [], childStderr = ''sh: ss: command not found'' @ [CHR 0x0A],
            runErr = Some (ExitError 127)\<rparr>
      else if command = ''  ''
      then \<lparr>childStdout = [], childStderr = ''some unexpected error'' @ [CHR 0x0A],
            runErr = Some (ExitError 127)\<rparr>
      else \<lparr>childStdout = [], childStderr = [], runErr = None\<rparr>)"

definition exampleHost :: "string \<Rightarrow> string list \<Rightarrow> Host" where
  \<comment> \<open>a host with the given operating system and executables on the search path\<close>
  "exampleHost os path =
     \<lparr>GOOS = os, LookPath = (\<lambda>name. name \<in> set path), hintRender = (\<lambda>s. s),
      unicodeLower = (\<lambda>s. s), sh = exampleChild\<rparr>"

definition emptyWorld :: World where
  "emptyWorld = \<lparr>osStdout = [], osStderr = [], executed = []\<rparr>"

definition exampleEnv :: "string \<Rightarrow> string \<Rightarrow> ShellEnv" where
  \<comment> \<open>an environment with the given shell and history file override\<close>
  "exampleEnv shell histfile = \<lparr>SHELL = shell, HISTFILE = histfile, HOME = ''/home/u''\<rparr>"

definition zshHistory :: files where
  \<comment> \<open>the history file of \<open>TestAddToShellHistoryZshExtended\<close>\<close>
  "zshHistory = [''/tmp/h'' \<mapsto> '': 1700000000:0;ls -la'' @ [CHR 0x0A]]"

definition plainHistory :: files where
  \<comment> \<open>the plain history file of \<open>TestIsZshExtendedHistory\<close>\<close>
  "plainHistory = [''/tmp/h'' \<mapsto> ''ls'' @ [CHR 0x0A] @ ''pwd'' @ [CHR 0x0A]]"

section \<open>Properties of the response parser\<close>

lemma lastLineWith_snoc:
  "lastLineWith p (ls @ [l]) = (if HasPrefix l p then Some l else lastLineWith p ls)"
  by (cases "filter (\<lambda>l. HasPrefix l p) ls") (simp_all add: lastLineWith_def)

lemma prefixes_disjoint: "HasPrefix l ''COMMAND:'' \<Longrightarrow> \<not> HasPrefix l ''EXPLANATION:''"
  by (cases l) (simp_all add: HasPrefix_def)

lemma Command_parseLine:
  "Command (parseLine r x) =
     (if HasPrefix (TrimSpace x) ''COMMAND:''
      then TrimSpace (drop (length ''COMMAND:'') (TrimSpace x)) else Command r)"
  by (simp add: parseLine_def Let_def TrimPrefix_def)

lemma Explanation_parseLine:
  "Explanation (parseLine r x) =
     (if HasPrefix (TrimSpace x) ''EXPLANATION:'' \<and> \<not> HasPrefix (TrimSpace x) ''COMMAND:''
      then TrimSpace (drop (length ''EXPLANATION:'') (TrimSpace x)) else Explanation r)"
  by (simp add: parseLine_def Let_def TrimPrefix_def)

lemma foldl_parseLine_Command:
  "Command (foldl parseLine r ls) =
     (case lastLineWith ''COMMAND:'' (map TrimSpace ls) of
        None \<Rightarrow> Command r
      | Some l \<Rightarrow> TrimSpace (drop (length ''COMMAND:'') l))"
proof (induction ls rule: rev_induct)
  case Nil
  show ?case by (simp add: lastLineWith_def)
next
  case (snoc x xs)
  show ?case
  proof (cases "HasPrefix (TrimSpace x) ''COMMAND:''")
    case True
    then show ?thesis
      by (simp add: lastLineWith_snoc Command_parseLine)
  next
    case False
    then show ?thesis
      using snoc.IH by (simp add: lastLineWith_snoc Command_parseLine)
  qed
qed

lemma foldl_parseLine_Explanation:
  "Explanation (foldl parseLine r ls) =
     (case lastLineWith ''EXPLANATION:'' (map TrimSpace ls) of
        None \<Rightarrow> Explanation r
      | Some l \<Rightarrow> TrimSpace (drop (length ''EXPLANATION:'') l))"
proof (induction ls rule: rev_induct)
  case Nil
  show ?case by (simp add: lastLineWith_def)
next
  case (snoc x xs)
  show ?case
  proof (cases "HasPrefix (TrimSpace x) ''EXPLANATION:''")
    case True
    then have "\<not> HasPrefix (TrimSpace x) ''COMMAND:''"
      using prefixes_disjoint by blast
    with True show ?thesis
      by (simp add: lastLineWith_snoc Explanation_parseLine)
  next
    case False
    then show ?thesis
      using snoc.IH by (simp add: lastLineWith_snoc Explanation_parseLine)
  qed
qed

lemma foldl_parseLine_filter:
  "foldl parseLine r (filter tagged ls) = foldl parseLine r ls"
  by (induction ls arbitrary: r) (simp_all add: tagged_def parseLine_def Let_def)

text \<open>
  Claim C4. For every response, the command is the whitespace-trimmed text after the
  prefix \<open>COMMAND:\<close> of the last line whose trimmed form starts with that prefix, and the
  explanation likewise for \<open>EXPLANATION:\<close>; the lines that start with neither prefix
  can be dropped from the response without changing the result, and of several lines
  with the same prefix the last one decides.
\<close>

theorem ParseResponse_last_wins:
  "(\<forall>l. lastLineWith ''COMMAND:'' (trimmedLines response) = Some l \<longrightarrow>
        Command (ParseResponse response) = TrimSpace (drop (length ''COMMAND:'') l)) \<and>
   (\<forall>l. lastLineWith ''EXPLANATION:'' (trimmedLines response) = Some l \<longrightarrow>
        Explanation (ParseResponse response) = TrimSpace (drop (length ''EXPLANATION:'') l)) \<and>
   ParseResponse response = foldl parseLine emptyResult (filter tagged (SplitLines response))"
  unfolding ParseResponse_def trimmedLines_def
  by (simp only: foldl_parseLine_Command foldl_parseLine_Explanation foldl_parseLine_filter)
     simp

theorem ParseResponse_last_wins_witness:
  "lastLineWith ''COMMAND:''
     (trimmedLines (''COMMAND: pwd'' @ [CHR 0x0A] @ ''note'' @ [CHR 0x0A] @
        ''  COMMAND:   ls -la  '' @ [CHR 0x0A] @ ''EXPLANATION: List files''))
     = Some ''COMMAND:   ls -la'' \<and>
   lastLineWith ''EXPLANATION:''
     (trimmedLines (''COMMAND: pwd'' @ [CHR 0x0A] @ ''note'' @ [CHR 0x0A] @
        ''  COMMAND:   ls -la  '' @ [CHR 0x0A] @ ''EXPLANATION: List files''))
     = Some ''EXPLANATION: List files'' \<and>
   ParseResponse (''COMMAND: pwd'' @ [CHR 0x0A] @ ''note'' @ [CHR 0x0A] @
        ''  COMMAND:   ls -la  '' @ [CHR 0x0A] @ ''EXPLANATION: List files'')
     = \<lparr>Command = ''ls -la'', Explanation = ''List files''\<rparr>"
proof -
  let ?r = "''COMMAND: pwd'' @ [CHR 0x0A] @ ''note'' @ [CHR 0x0A] @
        ''  COMMAND:   ls -la  '' @ [CHR 0x0A] @ ''EXPLANATION: List files''"
  have c: "lastLineWith ''COMMAND:'' (trimmedLines ?r) = Some ''COMMAND:   ls -la''"
    by code_simp
  have e: "lastLineWith ''EXPLANATION:'' (trimmedLines ?r) = Some ''EXPLANATION: List files''"
    by code_simp
  have "Command (ParseResponse ?r) = TrimSpace (drop (length ''COMMAND:'') ''COMMAND:   ls -la'')"
    using ParseResponse_last_wins [of ?r] c by blast
  moreover have "TrimSpace (drop (length ''COMMAND:'') ''COMMAND:   ls -la'') = ''ls -la''"
    by code_simp
  moreover have "Explanation (ParseResponse ?r) =
      TrimSpace (drop (length ''EXPLANATION:'') ''EXPLANATION: List files'')"
    using ParseResponse_last_wins [of ?r] e by blast
  moreover have "TrimSpace (drop (length ''EXPLANATION:'') ''EXPLANATION: List files'')
      = ''List files''"
    by code_simp
  ultimately have "ParseResponse ?r = \<lparr>Command = ''ls -la'', Explanation = ''List files''\<rparr>"
    by (cases "ParseResponse ?r") simp
  with c e show ?thesis
    by blast
qed

text \<open>
  Claim C9, as stated: a response with no line whose trimmed form starts with
  \<open>COMMAND:\<close> gives a result with both fields empty. The response
  \<open>EXPLANATION: hi\<close> has no such line, and its explanation is kept.
\<close>

theorem ParseResponse_no_command_counterexample:
  "lastLineWith ''COMMAND:'' (trimmedLines ''EXPLANATION: hi'') = None \<and>
   Explanation (ParseResponse ''EXPLANATION: hi'') = ''hi'' \<and>
   Explanation (ParseResponse ''EXPLANATION: hi'') \<noteq> []"
  by code_simp

text \<open>
  Claim C9, amended. \<open>ParseResponse\<close> is a total function (there is no failure value in
  its result type). A response with no line whose trimmed form starts with \<open>COMMAND:\<close>
  has the empty command; one with no line whose trimmed form starts with
  \<open>EXPLANATION:\<close> has the empty explanation; the empty response has both fields empty.
\<close>

theorem ParseResponse_no_match_empty:
  "(lastLineWith ''COMMAND:'' (trimmedLines response) = None \<longrightarrow>
      Command (ParseResponse response) = []) \<and>
   (lastLineWith ''EXPLANATION:'' (trimmedLines response) = None \<longrightarrow>
      Explanation (ParseResponse response) = []) \<and>
   ParseResponse [] = emptyResult"
  unfolding ParseResponse_def trimmedLines_def
  by (simp add: foldl_parseLine_Command foldl_parseLine_Explanation emptyResult_def
      parseLine_def Let_def TrimSpace_def TrimLeftSpace_def TrimRightSpace_def
      runeLen_def spaceRunes_def asciiSpace_def unicodeSpace_def HasPrefix_def)

theorem ParseResponse_no_match_empty_witness:
  "lastLineWith ''COMMAND:'' (trimmedLines ''ls -la'') = None \<and>
   lastLineWith ''EXPLANATION:'' (trimmedLines ''ls -la'') = None \<and>
   Command (ParseResponse ''ls -la'') = [] \<and> Explanation (ParseResponse ''ls -la'') = []"
proof -
  have c: "lastLineWith ''COMMAND:'' (trimmedLines ''ls -la'') = None"
    by code_simp
  have e: "lastLineWith ''EXPLANATION:'' (trimmedLines ''ls -la'') = None"
    by code_simp
  show ?thesis
    using ParseResponse_no_match_empty [of "''ls -la''"] c e by blast
qed

text \<open>
  Claim C1. The claim asks that backticks around the command be removed, as the test
  \<open>TestParseResponseStripsBackticks\<close> does. \<open>ParseResponse\<close> only trims whitespace: on
  the three responses of that test the backticks stay in the command.
\<close>

theorem ParseResponse_keeps_backticks:
  "Command (ParseResponse (''COMMAND: `ls -la`'' @ [CHR 0x0A] @ ''EXPLANATION: List files''))
     = ''`ls -la`'' \<and>
   Command (ParseResponse (''COMMAND: ```ls -la```'' @ [CHR 0x0A] @ ''EXPLANATION: List files''))
     = ''```ls -la```'' \<and>
   Command (ParseResponse (''COMMAND: `gh api -X GET /repos/owner/repo/actions'' @ [CHR 0x0A] @
       ''EXPLANATION: Get actions''))
     = ''`gh api -X GET /repos/owner/repo/actions'' \<and>
   Command (ParseResponse (''COMMAND: ls -la'' @ [CHR 0x0A] @ ''EXPLANATION: List files''))
     = ''ls -la''"
  by code_simp

section \<open>Properties of the pattern matcher\<close>

text \<open>
  The search is sound and complete: the results of \<open>run\<close> are exactly the ways to split
  the input into a text the pattern matches and a rest.
\<close>

lemma class_run_prefix:
  "(\<exists>u. s = u @ s' \<and> length u = n \<and> list_all P u) \<longleftrightarrow>
   (n \<le> length (takeWhile P s) \<and> s' = drop n s)"
proof
  assume "\<exists>u. s = u @ s' \<and> length u = n \<and> list_all P u"
  then obtain u where u: "s = u @ s'" "length u = n" "list_all P u"
    by blast
  then have "takeWhile P s = u @ takeWhile P s'"
    by (simp add: list_all_iff)
  with u show "n \<le> length (takeWhile P s) \<and> s' = drop n s"
    by simp
next
  assume a: "n \<le> length (takeWhile P s) \<and> s' = drop n s"
  then have "take n s = take n (takeWhile P s)"
    by (metis append_eq_conv_conj takeWhile_dropWhile_id take_append
        diff_is_0_eq take_0 append_Nil2)
  then have "list_all P (take n s)"
    by (metis list_all_iff in_set_takeD set_takeWhileD)
  moreover have "length (take n s) = n"
    using a by (metis length_take min.absorb2 length_takeWhile_le order_trans)
  ultimately show "\<exists>u. s = u @ s' \<and> length u = n \<and> list_all P u"
    using a by (metis append_take_drop_id)
qed

lemma run_sem:
  "set (run r s g) = {(s', g'). \<exists>u. s = u @ s' \<and> (u, g') \<in> sem r g}"
proof (induction r arbitrary: s g)
  case (Lit l)
  show ?case by (auto simp: prefix_def)
next
  case (Cat a b)
  show ?case
    by (auto simp: Cat.IH) (metis append.assoc)+
next
  case (Or a b)
  show ?case by (auto simp: Or.IH)
next
  case (Opt a)
  show ?case by (auto simp: Opt.IH)
next
  case (Star k)
  have "set (run (Star k) s g) = {(s', g'). g' = g \<and> (\<exists>n. n \<le> length (takeWhile (inClass k) s) \<and> s' = drop n s)}"
    by (auto simp: less_Suc_eq_le image_iff simp del: upt_Suc)
  also have "\<dots> = {(s', g'). g' = g \<and> (\<exists>n. \<exists>u. s = u @ s' \<and> length u = n \<and> list_all (inClass k) u)}"
    by (simp only: class_run_prefix)
  also have "\<dots> = {(s', g'). \<exists>u. s = u @ s' \<and> (u, g') \<in> sem (Star k) g}"
    by auto
  finally show ?case .
next
  case (Plus k)
  have "set (run (Plus k) s g) = {(s', g'). g' = g \<and> (\<exists>n. n \<noteq> 0 \<and> n \<le> length (takeWhile (inClass k) s) \<and> s' = drop n s)}"
    by (auto simp: less_Suc_eq_le image_iff Suc_le_eq simp del: upt_Suc)
  also have "\<dots> = {(s', g'). g' = g \<and> (\<exists>n. n \<noteq> 0 \<and> (\<exists>u. s = u @ s' \<and> length u = n \<and> list_all (inClass k) u))}"
    by (simp only: class_run_prefix)
  also have "\<dots> = {(s', g'). \<exists>u. s = u @ s' \<and> (u, g') \<in> sem (Plus k) g}"
    by auto
  finally show ?case .
next
  case (Group a)
  show ?case
    by (auto simp: Group.IH) force
qed

text \<open>
  \<open>FindStringSubmatch\<close> returns nil exactly when no piece of the text matches the
  pattern, and otherwise a matching piece and the text of its capturing group.
\<close>

declare FindStringSubmatch.simps [simp del]

lemma occurrence_here: "(u, g) \<in> sem r None \<Longrightarrow> occurrence r (u @ post) u g"
  unfolding occurrence_def by (intro exI [of _ "[]"] exI [of _ post]) simp

lemma occurrence_later: "occurrence r s u g \<Longrightarrow> occurrence r (c # s) u g"
proof -
  assume "occurrence r s u g"
  then obtain pre post where "s = pre @ u @ post" "(u, g) \<in> sem r None"
    unfolding occurrence_def by blast
  then have "c # s = (c # pre) @ u @ post \<and> (u, g) \<in> sem r None"
    by simp
  then show ?thesis
    unfolding occurrence_def by blast
qed

lemma occurrence_Cons:
  "occurrence r (c # s) u g \<Longrightarrow>
     (\<exists>post. c # s = u @ post \<and> (u, g) \<in> sem r None) \<or> occurrence r s u g"
proof -
  assume "occurrence r (c # s) u g"
  then obtain pre post where e: "c # s = pre @ u @ post" and m: "(u, g) \<in> sem r None"
    unfolding occurrence_def by blast
  show ?thesis
  proof (cases pre)
    case Nil
    with e m show ?thesis by simp
  next
    case (Cons p pre')
    with e have "s = pre' @ u @ post" by simp
    with m have "occurrence r s u g"
      unfolding occurrence_def by blast
    then show ?thesis ..
  qed
qed

lemma run_Nil_iff: "run r s None = [] \<longleftrightarrow> (\<forall>u post g. s = u @ post \<longrightarrow> (u, g) \<notin> sem r None)"
proof -
  have "run r s None = [] \<longleftrightarrow> set (run r s None) = {}"
    by simp
  also have "\<dots> \<longleftrightarrow> (\<forall>u post g. s = u @ post \<longrightarrow> (u, g) \<notin> sem r None)"
    unfolding run_sem by auto
  finally show ?thesis .
qed

lemma run_Cons_match:
  assumes "run r s None = (rest, g) # xs"
  shows "\<exists>u. s = u @ rest \<and> (u, g) \<in> sem r None \<and> take (length s - length rest) s = u"
proof -
  have "(rest, g) \<in> set (run r s None)"
    using assms by simp
  then obtain u where "s = u @ rest" "(u, g) \<in> sem r None"
    unfolding run_sem by auto
  then show ?thesis
    by auto
qed

lemma FindStringSubmatch_cases:
  "(FindStringSubmatch r s = [] \<and> (\<forall>u g. \<not> occurrence r s u g)) \<or>
   (\<exists>u g. occurrence r s u g \<and> FindStringSubmatch r s = [u, groupText g])"
proof (induction s)
  case Nil
  show ?case
  proof (cases "run r [] None")
    case Nil
    then have "\<forall>u g. \<not> occurrence r [] u g"
      unfolding occurrence_def run_Nil_iff by simp
    with Nil show ?thesis
      by (simp add: FindStringSubmatch.simps)
  next
    case (Cons x xs)
    obtain rest g where "x = (rest, g)"
      by (cases x)
    with Cons obtain u where u: "[] = u @ rest" "(u, g) \<in> sem r None"
      and f: "FindStringSubmatch r [] = [u, groupText g]"
      using run_Cons_match [of r "[]" rest g xs]
      by (auto simp: FindStringSubmatch.simps groupText_def)
    from u have "occurrence r [] u g"
      using occurrence_here [of u g r rest] by simp
    with f show ?thesis
      by blast
  qed
next
  case (Cons c s)
  show ?case
  proof (cases "run r (c # s) None")
    case Nil
    then have no: "\<forall>u post g. c # s = u @ post \<longrightarrow> (u, g) \<notin> sem r None"
      unfolding run_Nil_iff .
    have fs: "FindStringSubmatch r (c # s) = FindStringSubmatch r s"
      using Nil by (simp add: FindStringSubmatch.simps)
    from Cons.IH show ?thesis
    proof
      assume a: "FindStringSubmatch r s = [] \<and> (\<forall>u g. \<not> occurrence r s u g)"
      have "\<forall>u g. \<not> occurrence r (c # s) u g"
        using a no occurrence_Cons [of r c s] by blast
      with a fs show ?thesis by simp
    next
      assume "\<exists>u g. occurrence r s u g \<and> FindStringSubmatch r s = [u, groupText g]"
      then show ?thesis
        using fs occurrence_later [of r s _ _ c] by auto
    qed
  next
    case (Cons x xs)
    obtain rest g where "x = (rest, g)"
      by (cases x)
    with Cons obtain u where u: "c # s = u @ rest" "(u, g) \<in> sem r None"
      and f: "FindStringSubmatch r (c # s) = [u, groupText g]"
      using run_Cons_match [of r "c # s" rest g xs]
      by (auto simp: FindStringSubmatch.simps groupText_def)
    from u have "occurrence r (c # s) u g"
      using occurrence_here [of u g r rest] by simp
    with f show ?thesis
      by blast
  qed
qed

subsection \<open>The two patterns of the executor\<close>

text \<open>
  The matches of \<open>notFoundRe\<close> and \<open>notFoundZshRe\<close> are the messages described by
  \<open>shNotFound\<close> and \<open>zshNotFound\<close>, with the token as the capture.
\<close>

lemma Cats_Cons: "Cats (r # rs) = Cat r (Cats rs)"
  by (simp add: Cats_def)

lemma Cats_Cons2E:
  assumes "(w, g') \<in> sem (Cats (r # r' # rs)) g"
  obtains u v g1 where "w = u @ v" "(u, g1) \<in> sem r g" "(v, g') \<in> sem (Cats (r' # rs)) g1"
  using assms by (subst (asm) Cats_Cons) auto

lemma Cats_singleD: "(w, g') \<in> sem (Cats [r]) g \<Longrightarrow> (w, g') \<in> sem r g"
  by (auto simp: Cats_def)

lemma Cats_Cons2I:
  "(u, g1) \<in> sem r g \<Longrightarrow> (v, g') \<in> sem (Cats (r' # rs)) g1 \<Longrightarrow>
     (u @ v, g') \<in> sem (Cats (r # r' # rs)) g"
  by (subst Cats_Cons) auto

lemma Cats_singleI: "(w, g') \<in> sem r g \<Longrightarrow> (w, g') \<in> sem (Cats [r]) g"
  by (auto simp: Cats_def)

lemma sem_Lit: "(w, g') \<in> sem (Lit l) g \<longleftrightarrow> w = l \<and> g' = g"
  by auto

lemma sem_Star_Whitespace: "(w, g') \<in> sem (Star Whitespace) g \<longleftrightarrow> spaces w \<and> g' = g"
  by (auto simp: spaces_def)

lemma sem_Plus_Digit: "(w, g') \<in> sem (Plus Digit) g \<longleftrightarrow> digits w \<and> g' = g"
  by (auto simp: digits_def)

lemma sem_token: "(w, g') \<in> sem (Group (Plus NotWhitespace)) g \<longleftrightarrow> token w \<and> g' = Some w"
  by (auto simp: token_def)

lemma sem_shellName:
  "(w, g') \<in> sem (Or (Lit ''sh'') (Lit ''bash'')) g \<longleftrightarrow> shellName w \<and> g' = g"
  by (auto simp: shellName_def)

lemma sem_optCommand:
  "(w, g') \<in> sem (Opt (Lit ''command '')) g \<longleftrightarrow> optCommand w \<and> g' = g"
  by (auto simp: optCommand_def)

lemma sem_lineCats:
  "(w, g') \<in> sem (Cats [Lit ''line '', Plus Digit, Lit '':'', Star Whitespace]) g \<longleftrightarrow>
     (\<exists>ds ws. w = ''line '' @ ds @ '':'' @ ws \<and> digits ds \<and> spaces ws) \<and> g' = g"
proof
  assume "(w, g') \<in> sem (Cats [Lit ''line '', Plus Digit, Lit '':'', Star Whitespace]) g"
  then show "(\<exists>ds ws. w = ''line '' @ ds @ '':'' @ ws \<and> digits ds \<and> spaces ws) \<and> g' = g"
    apply (elim Cats_Cons2E)
    apply (drule Cats_singleD)
    apply (simp only: sem_Lit sem_Plus_Digit sem_Star_Whitespace)
    apply (elim conjE)
    apply hypsubst
    apply (intro exI conjI)
       apply (rule refl | assumption)+
    done
next
  assume "(\<exists>ds ws. w = ''line '' @ ds @ '':'' @ ws \<and> digits ds \<and> spaces ws) \<and> g' = g"
  then obtain ds ws where w: "w = ''line '' @ ds @ '':'' @ ws" and g: "g' = g"
    and p: "digits ds" "spaces ws"
    by (elim conjE exE)
  show "(w, g') \<in> sem (Cats [Lit ''line '', Plus Digit, Lit '':'', Star Whitespace]) g"
    unfolding w g
    by (intro Cats_Cons2I Cats_singleI)
       (simp_all only: sem_Lit sem_Plus_Digit sem_Star_Whitespace p simp_thms)
qed

lemma sem_lineSegment:
  "(w, g') \<in> sem (Opt (Cats [Lit ''line '', Plus Digit, Lit '':'', Star Whitespace])) g \<longleftrightarrow>
     lineSegment w \<and> g' = g"
  unfolding sem.simps(4) Un_iff sem_lineCats lineSegment_def
  by blast

lemma sem_notFoundZshRe:
  "(w, g) \<in> sem notFoundZshRe None \<longleftrightarrow> (\<exists>t. g = Some t \<and> zshNotFound w t)"
proof
  assume "(w, g) \<in> sem notFoundZshRe None"
  then show "\<exists>t. g = Some t \<and> zshNotFound w t"
    unfolding notFoundZshRe_def zshNotFound_def
    apply (elim Cats_Cons2E)
    apply (drule Cats_singleD)
    apply (simp only: sem_Lit sem_Star_Whitespace sem_token)
    apply (elim conjE)
    apply hypsubst
    apply (intro exI conjI)
        apply (rule refl | assumption)+
    done
next
  assume "\<exists>t. g = Some t \<and> zshNotFound w t"
  then obtain t ws1 ws2 where
    g: "g = Some t" and
    w: "w = ''zsh:'' @ ws1 @ ''command not found:'' @ ws2 @ t" and
    p: "spaces ws1" "spaces ws2" "token t"
    unfolding zshNotFound_def by (elim conjE exE)
  show "(w, g) \<in> sem notFoundZshRe None"
    unfolding notFoundZshRe_def g w
    by (intro Cats_Cons2I Cats_singleI)
       (simp_all only: sem_Lit sem_Star_Whitespace sem_token p simp_thms)
qed

lemma sem_notFoundRe:
  "(w, g) \<in> sem notFoundRe None \<longleftrightarrow> (\<exists>t. g = Some t \<and> shNotFound w t)"
proof
  assume "(w, g) \<in> sem notFoundRe None"
  then show "\<exists>t. g = Some t \<and> shNotFound w t"
    unfolding notFoundRe_def shNotFound_def
    apply (elim Cats_Cons2E)
    apply (drule Cats_singleD)
    apply (simp only: sem_Lit sem_Star_Whitespace sem_token sem_shellName sem_lineSegment
        sem_optCommand)
    apply (elim conjE)
    apply hypsubst
    apply (intro exI conjI)
           apply (rule refl | assumption)+
    done
next
  assume "\<exists>t. g = Some t \<and> shNotFound w t"
  then obtain t h ws1 ln ws2 c where
    g: "g = Some t" and
    w: "w = h @ '':'' @ ws1 @ ln @ t @ '':'' @ ws2 @ c @ ''not found''" and
    p: "shellName h" "spaces ws1" "lineSegment ln" "token t" "spaces ws2" "optCommand c"
    unfolding shNotFound_def by (elim conjE exE)
  show "(w, g) \<in> sem notFoundRe None"
    unfolding notFoundRe_def g w
    by (intro Cats_Cons2I Cats_singleI)
       (simp_all only: sem_Lit sem_Star_Whitespace sem_token sem_shellName sem_lineSegment
          sem_optCommand p simp_thms)
qed

section \<open>Properties of the command executor\<close>

text \<open>
  The three cases of \<open>parseNotFoundCommand\<close>, read against the error text itself.
\<close>

lemma inText_occurrence:
  assumes "\<And>w g. (w, g) \<in> sem r None \<longleftrightarrow> (\<exists>t. g = Some t \<and> form w t)"
  shows "inText form s t \<longleftrightarrow> (\<exists>u. occurrence r s u (Some t))"
  unfolding inText_def occurrence_def assms by auto

lemma FindStringSubmatch_form:
  assumes "\<And>w g. (w, g) \<in> sem r None \<longleftrightarrow> (\<exists>t. g = Some t \<and> form w t)"
  shows "(FindStringSubmatch r s = [] \<and> (\<forall>t. \<not> inText form s t)) \<or>
         (\<exists>u t. FindStringSubmatch r s = [u, t] \<and> inText form s t)"
proof -
  from FindStringSubmatch_cases [of r s] show ?thesis
  proof
    assume a: "FindStringSubmatch r s = [] \<and> (\<forall>u g. \<not> occurrence r s u g)"
    then have "\<forall>t. \<not> inText form s t"
      unfolding inText_occurrence [OF assms] by blast
    with a show ?thesis by blast
  next
    assume "\<exists>u g. occurrence r s u g \<and> FindStringSubmatch r s = [u, groupText g]"
    then obtain u g where o: "occurrence r s u g"
      and f: "FindStringSubmatch r s = [u, groupText g]"
      by blast
    from o have "(u, g) \<in> sem r None"
      unfolding occurrence_def by blast
    then obtain t where t: "g = Some t"
      unfolding assms by blast
    with o have "inText form s t"
      unfolding inText_occurrence [OF assms] by blast
    moreover from f t have "FindStringSubmatch r s = [u, t]"
      by (simp add: groupText_def)
    ultimately show ?thesis by blast
  qed
qed

lemmas find_sh = FindStringSubmatch_form [of notFoundRe shNotFound, OF sem_notFoundRe]
lemmas find_zsh = FindStringSubmatch_form [of notFoundZshRe zshNotFound, OF sem_notFoundZshRe]

lemma parseNotFoundCommand_fallback:
  assumes "\<forall>t. \<not> inText shNotFound stderr t" "\<forall>t. \<not> inText zshNotFound stderr t"
  shows "parseNotFoundCommand stderr command = firstField command"
  using find_sh [of stderr] find_zsh [of stderr] assms
  by (cases "Fields command") (auto simp: parseNotFoundCommand_def firstField_def)


text \<open>
  Which match the search returns. The matcher tries the positions of the text from the
  left, so the match it returns starts at the leftmost position where a message starts.
  At one position all sh/bash messages have the same token, and the zsh pattern, whose
  token comes last, takes the token as long as it can be.
\<close>

lemma span_unique:
  assumes "list_all P a" "list_all P a'" "a @ x = a' @ x'"
    and "x = [] \<or> \<not> P (hd x)" "x' = [] \<or> \<not> P (hd x')"
  shows "a = a' \<and> x = x'"
proof -
  have "takeWhile P (a @ x) = a"
    using assms(1,4) by (simp add: list_all_iff takeWhile_eq_Nil_iff)
  moreover have "takeWhile P (a' @ x') = a'"
    using assms(2,5) by (simp add: list_all_iff takeWhile_eq_Nil_iff)
  ultimately have "a = a'"
    using assms(3) by simp
  with assms(3) show ?thesis
    by simp
qed

lemma token_vs_word:
  assumes "list_all (inClass NotWhitespace) u"
    and "u @ CHR '':'' # x = word @ CHR '' '' # y"
    and "CHR '':'' \<notin> set word"
  shows False
proof -
  from assms(2) obtain us where
    "(u = word @ us \<and> us @ CHR '':'' # x = CHR '' '' # y) \<or>
     (u @ us = word \<and> CHR '':'' # x = us @ CHR '' '' # y)"
    unfolding append_eq_append_conv2 by blast
  then show False
  proof
    assume a: "u = word @ us \<and> us @ CHR '':'' # x = CHR '' '' # y"
    show False
    proof (cases us)
      case Nil
      with a show False by simp
    next
      case (Cons b us')
      with a have "b = CHR '' ''" "b \<in> set u"
        by simp_all
      with assms(1) show False
        by (auto simp: list_all_iff)
    qed
  next
    assume a: "u @ us = word \<and> CHR '':'' # x = us @ CHR '' '' # y"
    show False
    proof (cases us)
      case Nil
      with a show False by simp
    next
      case (Cons b us')
      with a have "b = CHR '':''" "b \<in> set word"
        by auto
      with assms(3) show False
        by simp
    qed
  qed
qed

lemma no_second_colon:
  assumes "list_all (inClass NotWhitespace) u" "spaces ws2" "optCommand c"
    and "ws2 @ c @ ''not found'' @ post = u @ CHR '':'' # d"
  shows False
proof (cases ws2)
  case Nil
  from assms(3) show False
    unfolding optCommand_def
  proof
    assume "c = []"
    with Nil assms(4) have "u @ CHR '':'' # d = ''not'' @ CHR '' '' # (''found'' @ post)"
      by simp
    then show False
      using token_vs_word [OF assms(1), of d "''not''" "''found'' @ post"] by simp
  next
    assume "c = ''command ''"
    with Nil assms(4) have "u @ CHR '':'' # d = ''command'' @ CHR '' '' # (''not found'' @ post)"
      by simp
    then show False
      using token_vs_word [OF assms(1), of d "''command''" "''not found'' @ post"] by simp
  qed
next
  case (Cons a ws2')
  with assms(2) have a: "inClass Whitespace a"
    by (simp add: spaces_def)
  show False
  proof (cases u)
    case Nil
    with Cons assms(4) have "a = CHR '':''"
      by simp
    with a show False by simp
  next
    case (Cons b u')
    with \<open>ws2 = a # ws2'\<close> assms(4) have "b = a"
      by simp
    with Cons assms(1) a show False
      by simp
  qed
qed

lemma token_hd: "token t \<Longrightarrow> t @ x \<noteq> [] \<and> \<not> inClass Whitespace (hd (t @ x))"
  by (cases t) (simp_all add: token_def)

lemma append_eq_cases:
  assumes "xs @ ys = zs @ ts"
  obtains us where "xs = zs @ us" "us @ ys = ts" | us where "xs @ us = zs" "ys = us @ ts"
  using assms unfolding append_eq_append_conv2 by blast

lemma token_tail_unique:
  assumes "token t" "token t'" "spaces ws2" "spaces ws2'" "optCommand c" "optCommand c'"
    and "t @ '':'' @ ws2 @ c @ ''not found'' @ post = t' @ '':'' @ ws2' @ c' @ ''not found'' @ post'"
  shows "t = t'"
  using assms(7)
proof (cases rule: append_eq_cases)
  case (1 us)
  show ?thesis
  proof (cases us)
    case Nil
    with 1 show ?thesis by simp
  next
    case (Cons b us')
    have "(b # us') @ '':'' @ ws2 @ c @ ''not found'' @ post
        = '':'' @ ws2' @ c' @ ''not found'' @ post'"
      using 1(2) unfolding Cons .
    then have e: "ws2' @ c' @ ''not found'' @ post'
        = us' @ CHR '':'' # (ws2 @ c @ ''not found'' @ post)"
      by simp
    from 1(1) Cons assms(1) have "list_all (inClass NotWhitespace) us'"
      by (simp add: token_def)
    then have False
      by (rule no_second_colon [OF _ assms(4,6) e])
    then show ?thesis ..
  qed
next
  case (2 us)
  show ?thesis
  proof (cases us)
    case Nil
    with 2 show ?thesis by simp
  next
    case (Cons b us')
    have "'':'' @ ws2 @ c @ ''not found'' @ post
        = (b # us') @ '':'' @ ws2' @ c' @ ''not found'' @ post'"
      using 2(2) unfolding Cons .
    then have e: "ws2 @ c @ ''not found'' @ post
        = us' @ CHR '':'' # (ws2' @ c' @ ''not found'' @ post')"
      by simp
    from 2(1) Cons assms(2) have "list_all (inClass NotWhitespace) us'"
      by (auto simp: token_def)
    then have False
      by (rule no_second_colon [OF _ assms(3,5) e])
    then show ?thesis ..
  qed
qed

lemma token_not_line:
  assumes "token u" "u @ '':'' @ y = (''line '' @ ds @ '':'' @ ws) @ v"
  shows False
proof -
  have a: "list_all (inClass NotWhitespace) u"
    using assms(1) by (simp add: token_def)
  have b: "CHR '':'' \<notin> set ''line''"
    by simp
  have e: "u @ CHR '':'' # y = ''line'' @ CHR '' '' # (ds @ '':'' @ ws @ v)"
    using assms(2) by simp
  from token_vs_word [OF a e b] show False .
qed

lemma lineSegment_unique:
  assumes "lineSegment ln" "lineSegment ln'" "token t" "token t'"
    and "ln @ t @ '':'' @ x = ln' @ t' @ '':'' @ x'"
  shows "t @ '':'' @ x = t' @ '':'' @ x'"
proof -
  consider (nn) "ln = []" "ln' = []"
    | (nl) ds ws where "ln = []" "ln' = ''line '' @ ds @ '':'' @ ws"
    | (ln) ds ws where "ln = ''line '' @ ds @ '':'' @ ws" "ln' = []"
    | (ll) ds ws ds' ws' where "ln = ''line '' @ ds @ '':'' @ ws" "digits ds" "spaces ws"
        "ln' = ''line '' @ ds' @ '':'' @ ws'" "digits ds'" "spaces ws'"
    using assms(1,2) unfolding lineSegment_def by blast
  then show ?thesis
  proof cases
    case nn
    with assms(5) show ?thesis by simp
  next
    case (nl ds ws)
    have "t @ '':'' @ x = (''line '' @ ds @ '':'' @ ws) @ (t' @ '':'' @ x')"
      using assms(5) unfolding nl by simp
    then have False
      by (rule token_not_line [OF assms(3)])
    then show ?thesis ..
  next
    case (ln ds ws)
    have "t' @ '':'' @ x' = (''line '' @ ds @ '':'' @ ws) @ (t @ '':'' @ x)"
      using assms(5) unfolding ln by simp
    then have False
      by (rule token_not_line [OF assms(4)])
    then show ?thesis ..
  next
    case (ll ds ws ds' ws')
    have e: "ds @ (CHR '':'' # ws @ t @ '':'' @ x) = ds' @ (CHR '':'' # ws' @ t' @ '':'' @ x')"
      using assms(5) unfolding ll(1,4) by simp
    have p: "list_all (inClass Digit) ds" "list_all (inClass Digit) ds'"
      using ll(2,5) by (simp_all add: digits_def)
    have q: "\<not> inClass Digit (hd (CHR '':'' # z))" for z
      by simp
    have "ds = ds' \<and> CHR '':'' # ws @ t @ '':'' @ x = CHR '':'' # ws' @ t' @ '':'' @ x'"
      by (rule span_unique [OF p e]) (rule disjI2, rule q)+
    then have e2: "ws @ (t @ '':'' @ x) = ws' @ (t' @ '':'' @ x')"
      by simp
    have s: "list_all (inClass Whitespace) ws" "list_all (inClass Whitespace) ws'"
      using ll(3,6) by (simp_all add: spaces_def)
    have "ws = ws' \<and> t @ '':'' @ x = t' @ '':'' @ x'"
      by (rule span_unique [OF s e2])
         (rule disjI2, rule conjunct2 [OF token_hd], rule assms(3,4))+
    then show ?thesis ..
  qed
qed

lemma lineSegment_hd:
  assumes "lineSegment ln" "token t"
  shows "\<not> inClass Whitespace (hd (ln @ t @ x))"
  using assms(1) unfolding lineSegment_def
proof
  assume "ln = []"
  then show ?thesis
    using token_hd [OF assms(2), of x] by simp
next
  assume "\<exists>ds ws. ln = ''line '' @ ds @ '':'' @ ws \<and> digits ds \<and> spaces ws"
  then obtain ds ws where "ln = ''line '' @ ds @ '':'' @ ws"
    by blast
  then show ?thesis
    by simp
qed

lemma shNotFound_token_unique:
  assumes "shNotFound w t" "shNotFound w' t'" "w @ post = w' @ post'"
  shows "t = t'"
proof -
  from assms(1) obtain h ws1 ln ws2 c where
    w: "w = h @ '':'' @ ws1 @ ln @ t @ '':'' @ ws2 @ c @ ''not found''" and
    p: "shellName h" "spaces ws1" "lineSegment ln" "token t" "spaces ws2" "optCommand c"
    unfolding shNotFound_def by (elim conjE exE)
  from assms(2) obtain h' ws1' ln' ws2' c' where
    w': "w' = h' @ '':'' @ ws1' @ ln' @ t' @ '':'' @ ws2' @ c' @ ''not found''" and
    p': "shellName h'" "spaces ws1'" "lineSegment ln'" "token t'" "spaces ws2'" "optCommand c'"
    unfolding shNotFound_def by (elim conjE exE)
  let ?D = "ws2 @ c @ ''not found'' @ post"
  let ?D' = "ws2' @ c' @ ''not found'' @ post'"
  have e0: "h @ '':'' @ ws1 @ (ln @ t @ '':'' @ ?D) = h' @ '':'' @ ws1' @ (ln' @ t' @ '':'' @ ?D')"
    using assms(3) unfolding w w' by simp
  have e1: "ws1 @ (ln @ t @ '':'' @ ?D) = ws1' @ (ln' @ t' @ '':'' @ ?D')"
    using p(1) p'(1) e0 unfolding shellName_def by (elim disjE) simp_all
  have s: "list_all (inClass Whitespace) ws1" "list_all (inClass Whitespace) ws1'"
    using p(2) p'(2) by (simp_all add: spaces_def)
  have "ws1 = ws1' \<and> ln @ t @ '':'' @ ?D = ln' @ t' @ '':'' @ ?D'"
    by (rule span_unique [OF s e1])
       (rule disjI2, rule lineSegment_hd, rule p(3) p'(3), rule p(4) p'(4))+
  then have "t @ '':'' @ ?D = t' @ '':'' @ ?D'"
    using lineSegment_unique [OF p(3) p'(3) p(4) p'(4)] by blast
  then show ?thesis
    by (rule token_tail_unique [OF p(4) p'(4) p(5) p'(5) p(6) p'(6)])
qed

lemma zshNotFound_token_prefix:
  assumes "zshNotFound w t" "zshNotFound w' t'" "w @ post = w' @ post'"
    and "post = [] \<or> \<not> inClass NotWhitespace (hd post)"
  shows "prefix t' t"
proof -
  from assms(1) obtain ws1 ws2 where
    w: "w = ''zsh:'' @ ws1 @ ''command not found:'' @ ws2 @ t" and
    p: "spaces ws1" "spaces ws2" "token t"
    unfolding zshNotFound_def by (elim conjE exE)
  from assms(2) obtain ws1' ws2' where
    w': "w' = ''zsh:'' @ ws1' @ ''command not found:'' @ ws2' @ t'" and
    p': "spaces ws1'" "spaces ws2'" "token t'"
    unfolding zshNotFound_def by (elim conjE exE)
  let ?B = "''command not found:'' @ ws2 @ t @ post"
  let ?B' = "''command not found:'' @ ws2' @ t' @ post'"
  have e1: "ws1 @ ?B = ws1' @ ?B'"
    using assms(3) unfolding w w' by simp
  have s1: "list_all (inClass Whitespace) ws1" "list_all (inClass Whitespace) ws1'"
    using p(1) p'(1) by (simp_all add: spaces_def)
  have "ws1 = ws1' \<and> ?B = ?B'"
    by (rule span_unique [OF s1 e1]) simp_all
  then have e2: "ws2 @ (t @ post) = ws2' @ (t' @ post')"
    by simp
  have s2: "list_all (inClass Whitespace) ws2" "list_all (inClass Whitespace) ws2'"
    using p(2) p'(2) by (simp_all add: spaces_def)
  have "ws2 = ws2' \<and> t @ post = t' @ post'"
    by (rule span_unique [OF s2 e2])
       (rule disjI2, rule conjunct2 [OF token_hd], rule p(3) p'(3))+
  then have "t @ post = t' @ post'" ..
  then show ?thesis
  proof (cases rule: append_eq_cases)
    case (1 us)
    then show ?thesis by simp
  next
    case (2 us)
    show ?thesis
    proof (cases us)
      case Nil
      with 2 show ?thesis by simp
    next
      case (Cons b us')
      with 2 have "hd post = b" "post \<noteq> []" "b \<in> set t'"
        by auto
      with p'(3) assms(4) show ?thesis
        by (auto simp: token_def list_all_iff)
    qed
  qed
qed

lemma FindStringSubmatch_leftmost:
  "(FindStringSubmatch r s = [] \<and> (\<forall>k\<le>length s. run r (drop k s) None = [])) \<or>
   (\<exists>k rest g xs. k \<le> length s \<and> run r (drop k s) None = (rest, g) # xs \<and>
      (\<forall>j<k. run r (drop j s) None = []) \<and>
      FindStringSubmatch r s = [take (length s - k - length rest) (drop k s), groupText g])"
proof (induction s)
  case Nil
  show ?case
  proof (cases "run r [] None")
    case Nil
    then show ?thesis
      by (simp add: FindStringSubmatch.simps)
  next
    case (Cons x xs)
    obtain rest g where "x = (rest, g)"
      by (cases x)
    with Cons have "(0::nat) \<le> length ([]::string) \<and> run r (drop 0 []) None = (rest, g) # xs \<and>
        (\<forall>j<0::nat. run r (drop j []) None = []) \<and>
        FindStringSubmatch r [] = [take (length ([]::string) - 0 - length rest) (drop 0 []), groupText g]"
      by (simp add: FindStringSubmatch.simps groupText_def)
    then show ?thesis
      by blast
  qed
next
  case (Cons c s)
  show ?case
  proof (cases "run r (c # s) None")
    case Nil
    have fs: "FindStringSubmatch r (c # s) = FindStringSubmatch r s"
      using Nil by (simp add: FindStringSubmatch.simps)
    from Cons.IH show ?thesis
    proof
      assume a: "FindStringSubmatch r s = [] \<and> (\<forall>k\<le>length s. run r (drop k s) None = [])"
      have "\<forall>k\<le>length (c # s). run r (drop k (c # s)) None = []"
      proof (intro allI impI)
        fix k assume "k \<le> length (c # s)"
        then show "run r (drop k (c # s)) None = []"
          using a Nil by (cases k) simp_all
      qed
      with a fs show ?thesis
        by simp
    next
      assume "\<exists>k rest g xs. k \<le> length s \<and> run r (drop k s) None = (rest, g) # xs \<and>
        (\<forall>j<k. run r (drop j s) None = []) \<and>
        FindStringSubmatch r s = [take (length s - k - length rest) (drop k s), groupText g]"
      then obtain k rest g xs where k: "k \<le> length s"
        and m: "run r (drop k s) None = (rest, g) # xs"
        and l: "\<forall>j<k. run r (drop j s) None = []"
        and f: "FindStringSubmatch r s = [take (length s - k - length rest) (drop k s), groupText g]"
        by blast
      have "\<forall>j<Suc k. run r (drop j (c # s)) None = []"
      proof (intro allI impI)
        fix j assume "j < Suc k"
        then show "run r (drop j (c # s)) None = []"
          using l Nil by (cases j) simp_all
      qed
      with k m f fs have "Suc k \<le> length (c # s) \<and>
          run r (drop (Suc k) (c # s)) None = (rest, g) # xs \<and>
          (\<forall>j<Suc k. run r (drop j (c # s)) None = []) \<and>
          FindStringSubmatch r (c # s)
            = [take (length (c # s) - Suc k - length rest) (drop (Suc k) (c # s)), groupText g]"
        by simp
      then show ?thesis
        by blast
    qed
  next
    case (Cons x xs)
    obtain rest g where "x = (rest, g)"
      by (cases x)
    with Cons have "(0::nat) \<le> length (c # s) \<and>
        run r (drop 0 (c # s)) None = (rest, g) # xs \<and>
        (\<forall>j<0::nat. run r (drop j (c # s)) None = []) \<and>
        FindStringSubmatch r (c # s)
          = [take (length (c # s) - 0 - length rest) (drop 0 (c # s)), groupText g]"
      by (simp add: FindStringSubmatch.simps groupText_def)
    then show ?thesis
      by blast
  qed
qed

lemma hd_concat_map:
  "concat (map f xs) = y # ys \<Longrightarrow> \<exists>x\<in>set xs. \<exists>zs. f x = y # zs"
proof (induction xs)
  case Nil
  then show ?case by simp
next
  case (Cons a xs)
  show ?case
  proof (cases "f a")
    case Nil
    with Cons show ?thesis by simp
  next
    case (Cons b bs)
    with Cons.prems show ?thesis by simp
  qed
qed

lemma run_Cat_last:
  assumes "run (Cat a b) s g = y # ys"
  shows "\<exists>s1 g1 zs. run b s1 g1 = y # zs"
proof -
  from assms have "concat (map (\<lambda>(s', g'). run b s' g') (run a s g)) = y # ys"
    by simp
  then obtain x zs where "(\<lambda>(s', g'). run b s' g') x = y # zs"
    using hd_concat_map [of "\<lambda>(s', g'). run b s' g'" "run a s g" y ys] by blast
  then have "run b (fst x) (snd x) = y # zs"
    by (simp add: case_prod_beta)
  then show ?thesis
    by blast
qed

lemma run_Group_Plus_end:
  assumes "run (Cat (Group (Plus k)) (Lit [])) s g = (rest, g') # ys"
  shows "rest = dropWhile (inClass k) s"
proof (cases "length (takeWhile (inClass k) s)")
  case 0
  with assms show ?thesis by simp
next
  case (Suc m)
  then have "rev [1 ..< Suc (length (takeWhile (inClass k) s))]
      = length (takeWhile (inClass k) s) # rev [1 ..< length (takeWhile (inClass k) s)]"
    by simp
  with assms have "rest = drop (length (takeWhile (inClass k) s)) s"
    by simp
  then show ?thesis
    by (simp add: dropWhile_eq_drop)
qed

lemma notFoundZshRe_first_maximal:
  assumes "run notFoundZshRe x None = (rest, g) # xs"
  shows "rest = [] \<or> \<not> inClass NotWhitespace (hd rest)"
proof -
  have "notFoundZshRe =
      Cat (Lit ''zsh:'') (Cat (Star Whitespace) (Cat (Lit ''command not found:'')
        (Cat (Star Whitespace) (Cat (Group (Plus NotWhitespace)) (Lit [])))))"
    by (simp add: notFoundZshRe_def Cats_def)
  with assms obtain s1 g1 z1 where
    "run (Cat (Star Whitespace) (Cat (Lit ''command not found:'')
        (Cat (Star Whitespace) (Cat (Group (Plus NotWhitespace)) (Lit []))))) s1 g1
      = (rest, g) # z1"
    using run_Cat_last by metis
  then obtain s2 g2 z2 where
    "run (Cat (Lit ''command not found:'')
        (Cat (Star Whitespace) (Cat (Group (Plus NotWhitespace)) (Lit [])))) s2 g2
      = (rest, g) # z2"
    using run_Cat_last by metis
  then obtain s3 g3 z3 where
    "run (Cat (Star Whitespace) (Cat (Group (Plus NotWhitespace)) (Lit []))) s3 g3
      = (rest, g) # z3"
    using run_Cat_last by metis
  then obtain s4 g4 z4 where
    "run (Cat (Group (Plus NotWhitespace)) (Lit [])) s4 g4 = (rest, g) # z4"
    using run_Cat_last by metis
  then have "rest = dropWhile (inClass NotWhitespace) s4"
    by (rule run_Group_Plus_end)
  then show ?thesis
    using hd_dropWhile [of "inClass NotWhitespace" s4] by auto
qed

lemma run_Nil_message:
  assumes "\<And>w g. (w, g) \<in> sem r None \<longleftrightarrow> (\<exists>t. g = Some t \<and> form w t)"
    and "k \<le> length s"
  shows "run r (drop k s) None = [] \<longleftrightarrow> (\<forall>t. \<not> messageAt form s k t)"
  unfolding run_Nil_iff messageAt_def assms(1) using assms(2) by blast

lemma FindStringSubmatch_first:
  assumes "\<And>w g. (w, g) \<in> sem r None \<longleftrightarrow> (\<exists>t. g = Some t \<and> form w t)"
    and "FindStringSubmatch r s \<noteq> []"
  shows "\<exists>k u t rest xs. firstMessageAt form s k \<and> k \<le> length s \<and> drop k s = u @ rest \<and>
           form u t \<and> run r (drop k s) None = (rest, Some t) # xs \<and>
           FindStringSubmatch r s = [u, t]"
proof -
  from FindStringSubmatch_leftmost [of r s] assms(2)
  obtain k rest g xs where k: "k \<le> length s"
    and m: "run r (drop k s) None = (rest, g) # xs"
    and l: "\<forall>j<k. run r (drop j s) None = []"
    and f: "FindStringSubmatch r s = [take (length s - k - length rest) (drop k s), groupText g]"
    by blast
  from run_Cons_match [OF m] obtain u where
    u: "drop k s = u @ rest" "(u, g) \<in> sem r None"
      "take (length (drop k s) - length rest) (drop k s) = u"
    by blast
  from u(2) obtain t where t: "g = Some t" "form u t"
    unfolding assms(1) by blast
  have msg: "messageAt form s k t"
    unfolding messageAt_def using k u(1) t(2) by blast
  have "\<forall>j<k. \<forall>t. \<not> messageAt form s j t"
  proof (intro allI impI)
    fix j t' assume j: "j < k"
    with k have "j \<le> length s"
      by simp
    from run_Nil_message [OF assms(1) this] l j show "\<not> messageAt form s j t'"
      by blast
  qed
  with msg have first: "firstMessageAt form s k"
    unfolding firstMessageAt_def by blast
  from f u(3) t(1) have "FindStringSubmatch r s = [u, t]"
    by (simp add: groupText_def)
  with first k u(1) t m show ?thesis
    by blast
qed

lemma inText_messageAt: "inText form s t \<longleftrightarrow> (\<exists>k. messageAt form s k t)"
proof
  assume "inText form s t"
  then obtain pre w post where "s = pre @ w @ post" "form w t"
    unfolding inText_def by blast
  then have "length pre \<le> length s \<and> drop (length pre) s = w @ post \<and> form w t"
    by simp
  then have "messageAt form s (length pre) t"
    unfolding messageAt_def by blast
  then show "\<exists>k. messageAt form s k t" ..
next
  assume "\<exists>k. messageAt form s k t"
  then obtain k w post where "drop k s = w @ post" "form w t"
    unfolding messageAt_def by blast
  then have "s = take k s @ w @ post \<and> form w t"
    by (metis append_take_drop_id)
  then show "inText form s t"
    unfolding inText_def by blast
qed

lemma parseNotFoundCommand_sh_first:
  assumes "\<exists>t. inText shNotFound stderr t"
  shows "\<exists>k. firstMessageAt shNotFound stderr k \<and>
           messageAt shNotFound stderr k (parseNotFoundCommand stderr command) \<and>
           (\<forall>t. messageAt shNotFound stderr k t \<longrightarrow> t = parseNotFoundCommand stderr command)"
proof -
  from assms find_sh [of stderr] have ne: "FindStringSubmatch notFoundRe stderr \<noteq> []"
    by auto
  from FindStringSubmatch_first [of notFoundRe shNotFound, OF sem_notFoundRe ne]
  obtain k u t rest where first: "firstMessageAt shNotFound stderr k"
    and k: "k \<le> length stderr" and d: "drop k stderr = u @ rest" and u: "shNotFound u t"
    and f: "FindStringSubmatch notFoundRe stderr = [u, t]"
    by blast
  from f have r: "parseNotFoundCommand stderr command = t"
    by (simp add: parseNotFoundCommand_def)
  have m: "messageAt shNotFound stderr k t"
    unfolding messageAt_def using k d u by blast
  have "\<forall>t'. messageAt shNotFound stderr k t' \<longrightarrow> t' = t"
  proof (intro allI impI)
    fix t' assume "messageAt shNotFound stderr k t'"
    then obtain w' post' where "drop k stderr = w' @ post'" "shNotFound w' t'"
      unfolding messageAt_def by blast
    with d have "w' @ post' = u @ rest"
      by simp
    with \<open>shNotFound w' t'\<close> u show "t' = t"
      by (rule shNotFound_token_unique)
  qed
  with first m r show ?thesis
    by blast
qed

lemma parseNotFoundCommand_zsh_first:
  assumes "\<forall>t. \<not> inText shNotFound stderr t" "\<exists>t. inText zshNotFound stderr t"
  shows "\<exists>k. firstMessageAt zshNotFound stderr k \<and>
           messageAt zshNotFound stderr k (parseNotFoundCommand stderr command) \<and>
           (\<forall>t. messageAt zshNotFound stderr k t \<longrightarrow>
              prefix t (parseNotFoundCommand stderr command))"
proof -
  from assms(1) find_sh [of stderr] have no: "FindStringSubmatch notFoundRe stderr = []"
    by auto
  from assms(2) find_zsh [of stderr] have ne: "FindStringSubmatch notFoundZshRe stderr \<noteq> []"
    by auto
  from FindStringSubmatch_first [of notFoundZshRe zshNotFound, OF sem_notFoundZshRe ne]
  obtain k u t rest xs where first: "firstMessageAt zshNotFound stderr k"
    and k: "k \<le> length stderr" and d: "drop k stderr = u @ rest" and u: "zshNotFound u t"
    and h: "run notFoundZshRe (drop k stderr) None = (rest, Some t) # xs"
    and f: "FindStringSubmatch notFoundZshRe stderr = [u, t]"
    by blast
  from no f have r: "parseNotFoundCommand stderr command = t"
    by (simp add: parseNotFoundCommand_def)
  have m: "messageAt zshNotFound stderr k t"
    unfolding messageAt_def using k d u by blast
  have mx: "rest = [] \<or> \<not> inClass NotWhitespace (hd rest)"
    using h by (rule notFoundZshRe_first_maximal)
  have "\<forall>t'. messageAt zshNotFound stderr k t' \<longrightarrow> prefix t' t"
  proof (intro allI impI)
    fix t' assume "messageAt zshNotFound stderr k t'"
    then obtain w' post' where w': "drop k stderr = w' @ post'" "zshNotFound w' t'"
      unfolding messageAt_def by blast
    with d have "u @ rest = w' @ post'"
      by simp
    from zshNotFound_token_prefix [OF u w'(2) this mx] show "prefix t' t" .
  qed
  with first m r show ?thesis
    by blast
qed

lemma firstMessageAt_zero: "firstMessageAt form s k \<Longrightarrow> messageAt form s 0 t \<Longrightarrow> k = 0"
  by (cases k) (auto simp: firstMessageAt_def)

lemma messageAt_zero: "form w t \<Longrightarrow> messageAt form (w @ post) 0 t"
  unfolding messageAt_def by auto

lemma sh_result_at_start:
  assumes "\<exists>k. firstMessageAt shNotFound s k \<and> messageAt shNotFound s k r \<and>
      (\<forall>t. messageAt shNotFound s k t \<longrightarrow> t = r)"
    and "shNotFound w t" "s = w @ post"
  shows "r = t"
proof -
  from assms(1) obtain k where k: "firstMessageAt shNotFound s k"
    and u: "\<forall>t. messageAt shNotFound s k t \<longrightarrow> t = r"
    by blast
  have m: "messageAt shNotFound s 0 t"
    unfolding assms(3) using assms(2) by (rule messageAt_zero)
  with k have "k = 0"
    by (rule firstMessageAt_zero)
  with u m show ?thesis
    by blast
qed

lemma zsh_result_at_start:
  assumes "\<exists>k. firstMessageAt zshNotFound s k \<and> messageAt zshNotFound s k r \<and>
      (\<forall>t. messageAt zshNotFound s k t \<longrightarrow> prefix t r)"
    and "zshNotFound w t" "s = w @ post" "post = [] \<or> \<not> inClass NotWhitespace (hd post)"
  shows "r = t"
proof -
  from assms(1) obtain k where k: "firstMessageAt zshNotFound s k"
    and mk: "messageAt zshNotFound s k r"
    and p: "\<forall>t. messageAt zshNotFound s k t \<longrightarrow> prefix t r"
    by blast
  have m: "messageAt zshNotFound s 0 t"
    unfolding assms(3) using assms(2) by (rule messageAt_zero)
  with k have k0: "k = 0"
    by (rule firstMessageAt_zero)
  with p m have p1: "prefix t r"
    by blast
  from mk k0 obtain w' post' where w': "s = w' @ post'" "zshNotFound w' r"
    unfolding messageAt_def by auto
  from w'(1) assms(3) have "w @ post = w' @ post'"
    by simp
  from zshNotFound_token_prefix [OF assms(2) w'(2) this assms(4)] have "prefix r t" .
  with p1 show ?thesis
    by (simp add: prefix_order.antisym)
qed

text \<open>
  Claim C3, amended. The missing command is taken from the error text by the sh/bash
  pattern first: \<open>sh:\<close> or \<open>bash:\<close>, optional whitespace, an optional \<open>line N:\<close>
  segment, a token, \<open>:\<close>, optional whitespace, then \<open>not found\<close> with or without the
  word \<open>command\<close> before it. When the text contains such a message, the result is the
  token of the message that starts leftmost, and it is the only token a message starting
  there can have. When the text contains no such message, the zsh pattern
  \<open>zsh: command not found: <token>\<close> is used in the same way, and the result is the whole
  token: every token of a zsh message starting at that position is a prefix of it. When
  the text contains neither, the result is the first whitespace-delimited token of the
  command. The three error texts of the specification give \<open>ss\<close>, \<open>htop\<close> and \<open>rg\<close>.
\<close>

theorem parseNotFoundCommand_patterns:
  "((\<exists>t. inText shNotFound stderr t) \<longrightarrow>
      (\<exists>k. firstMessageAt shNotFound stderr k \<and>
           messageAt shNotFound stderr k (parseNotFoundCommand stderr command) \<and>
           (\<forall>t. messageAt shNotFound stderr k t \<longrightarrow>
              t = parseNotFoundCommand stderr command))) \<and>
   ((\<forall>t. \<not> inText shNotFound stderr t) \<and> (\<exists>t. inText zshNotFound stderr t) \<longrightarrow>
      (\<exists>k. firstMessageAt zshNotFound stderr k \<and>
           messageAt zshNotFound stderr k (parseNotFoundCommand stderr command) \<and>
           (\<forall>t. messageAt zshNotFound stderr k t \<longrightarrow>
              prefix t (parseNotFoundCommand stderr command)))) \<and>
   ((\<forall>t. \<not> inText shNotFound stderr t) \<and> (\<forall>t. \<not> inText zshNotFound stderr t) \<longrightarrow>
      parseNotFoundCommand stderr command = firstField command) \<and>
   parseNotFoundCommand (''sh: ss: command not found'' @ [CHR 0x0A]) command = ''ss'' \<and>
   parseNotFoundCommand (''bash: line 1: htop: command not found'' @ [CHR 0x0A]) command
     = ''htop'' \<and>
   parseNotFoundCommand (''zsh: command not found: rg'' @ [CHR 0x0A]) command = ''rg''"
proof -
  have 1: "FindStringSubmatch notFoundRe (''sh: ss: command not found'' @ [CHR 0x0A])
      = [''sh: ss: command not found'', ''ss'']"
    by code_simp
  have 2: "FindStringSubmatch notFoundRe (''bash: line 1: htop: command not found'' @ [CHR 0x0A])
      = [''bash: line 1: htop: command not found'', ''htop'']"
    by code_simp
  have 3: "FindStringSubmatch notFoundRe (''zsh: command not found: rg'' @ [CHR 0x0A]) = []"
    by code_simp
  have 4: "FindStringSubmatch notFoundZshRe (''zsh: command not found: rg'' @ [CHR 0x0A])
      = [''zsh: command not found: rg'', ''rg'']"
    by code_simp
  have a: "parseNotFoundCommand (''sh: ss: command not found'' @ [CHR 0x0A]) command = ''ss''"
    unfolding parseNotFoundCommand_def 1 by simp
  have b: "parseNotFoundCommand (''bash: line 1: htop: command not found'' @ [CHR 0x0A]) command
      = ''htop''"
    unfolding parseNotFoundCommand_def 2 by simp
  have c: "parseNotFoundCommand (''zsh: command not found: rg'' @ [CHR 0x0A]) command = ''rg''"
    unfolding parseNotFoundCommand_def 3 4 by simp
  have s: "(\<exists>t. inText shNotFound stderr t) \<longrightarrow>
      (\<exists>k. firstMessageAt shNotFound stderr k \<and>
           messageAt shNotFound stderr k (parseNotFoundCommand stderr command) \<and>
           (\<forall>t. messageAt shNotFound stderr k t \<longrightarrow>
              t = parseNotFoundCommand stderr command))"
    using parseNotFoundCommand_sh_first [of stderr command] by (intro impI)
  have z: "(\<forall>t. \<not> inText shNotFound stderr t) \<and> (\<exists>t. inText zshNotFound stderr t) \<longrightarrow>
      (\<exists>k. firstMessageAt zshNotFound stderr k \<and>
           messageAt zshNotFound stderr k (parseNotFoundCommand stderr command) \<and>
           (\<forall>t. messageAt zshNotFound stderr k t \<longrightarrow>
              prefix t (parseNotFoundCommand stderr command)))"
    using parseNotFoundCommand_zsh_first [of stderr command] by (intro impI) (elim conjE)
  have f: "(\<forall>t. \<not> inText shNotFound stderr t) \<and> (\<forall>t. \<not> inText zshNotFound stderr t) \<longrightarrow>
      parseNotFoundCommand stderr command = firstField command"
    using parseNotFoundCommand_fallback [of stderr command] by (intro impI) (elim conjE)
  from s z f a b c show ?thesis
    by (intro conjI)
qed

theorem parseNotFoundCommand_patterns_witness:
  "(\<exists>t. inText shNotFound
      (''sh: a: not found'' @ [CHR 0x0A] @ ''sh: b: not found'' @ [CHR 0x0A]) t) \<and>
   parseNotFoundCommand
      (''sh: a: not found'' @ [CHR 0x0A] @ ''sh: b: not found'' @ [CHR 0x0A]) ''bar baz''
     = ''a'' \<and>
   (\<forall>t. \<not> inText shNotFound (''zsh: command not found: htop'' @ [CHR 0x0A]) t) \<and>
   (\<exists>t. inText zshNotFound (''zsh: command not found: htop'' @ [CHR 0x0A]) t) \<and>
   parseNotFoundCommand (''zsh: command not found: htop'' @ [CHR 0x0A]) ''htop -d 5''
     = ''htop'' \<and>
   (\<forall>t. \<not> inText shNotFound (''some unexpected error'' @ [CHR 0x0A]) t) \<and>
   (\<forall>t. \<not> inText zshNotFound (''some unexpected error'' @ [CHR 0x0A]) t) \<and>
   parseNotFoundCommand (''some unexpected error'' @ [CHR 0x0A]) ''nonexistent --flag''
     = ''nonexistent''"
proof -
  let ?a = "''sh: a: not found'' @ [CHR 0x0A] @ ''sh: b: not found'' @ [CHR 0x0A]"
  let ?b = "''zsh: command not found: htop'' @ [CHR 0x0A]"
  let ?c = "''some unexpected error'' @ [CHR 0x0A]"
  have "FindStringSubmatch notFoundRe ?a \<noteq> []"
    by code_simp
  then have ia: "\<exists>t. inText shNotFound ?a t"
    using find_sh [of ?a] by blast
  have wa: "shNotFound ''sh: a: not found'' ''a''"
    unfolding shNotFound_def
    by (intro exI [of _ "''sh''"] exI [of _ "'' ''"] exI [of _ "[]"] conjI)
       (simp_all add: shellName_def spaces_def lineSegment_def token_def optCommand_def)
  have sa: "?a = ''sh: a: not found'' @ ([CHR 0x0A] @ ''sh: b: not found'' @ [CHR 0x0A])"
    by simp
  have ra: "parseNotFoundCommand ?a ''bar baz'' = ''a''"
    by (rule sh_result_at_start
          [OF mp [OF conjunct1 [OF parseNotFoundCommand_patterns [of ?a "''bar baz''"]] ia] wa sa])
  have "FindStringSubmatch notFoundRe ?b = []"
    by code_simp
  then have b1: "\<forall>t. \<not> inText shNotFound ?b t"
    using find_sh [of ?b] by auto
  have "FindStringSubmatch notFoundZshRe ?b \<noteq> []"
    by code_simp
  then have b2: "\<exists>t. inText zshNotFound ?b t"
    using find_zsh [of ?b] by blast
  have wb: "zshNotFound ''zsh: command not found: htop'' ''htop''"
    unfolding zshNotFound_def
    by (intro exI [of _ "'' ''"] conjI) (simp_all add: spaces_def token_def)
  have mb: "[CHR 0x0A] = [] \<or> \<not> inClass NotWhitespace (hd [CHR 0x0A])"
    by simp
  have rb: "parseNotFoundCommand ?b ''htop -d 5'' = ''htop''"
    by (rule zsh_result_at_start
          [OF mp [OF conjunct1 [OF conjunct2
                [OF parseNotFoundCommand_patterns [of ?b "''htop -d 5''"]]] conjI [OF b1 b2]]
              wb refl mb])
  have "FindStringSubmatch notFoundRe ?c = []"
    by code_simp
  then have c1: "\<forall>t. \<not> inText shNotFound ?c t"
    using find_sh [of ?c] by auto
  have "FindStringSubmatch notFoundZshRe ?c = []"
    by code_simp
  then have c2: "\<forall>t. \<not> inText zshNotFound ?c t"
    using find_zsh [of ?c] by auto
  have fc: "firstField ''nonexistent --flag'' = ''nonexistent''"
    by code_simp
  have "parseNotFoundCommand ?c ''nonexistent --flag'' = firstField ''nonexistent --flag''"
    by (rule mp [OF conjunct1 [OF conjunct2 [OF conjunct2
          [OF parseNotFoundCommand_patterns [of ?c "''nonexistent --flag''"]]]] conjI [OF c1 c2]])
  with fc have rc: "parseNotFoundCommand ?c ''nonexistent --flag'' = ''nonexistent''"
    by simp
  from ia ra b1 b2 rb c1 c2 rc show ?thesis
    by (intro conjI)
qed

text \<open>
  Claim C3, as stated: the sh/bash pattern ends in \<open>: command not found\<close>. The error
  text \<open>sh: foo: not found\<close> has no message of that form and none of zsh, so the claim
  gives the first token \<open>bar\<close> of the command \<open>bar baz\<close>; the pattern of the code makes
  the word \<open>command\<close> optional and gives \<open>foo\<close>.
\<close>

theorem parseNotFoundCommand_short_form_counterexample:
  "claimed_parseNotFoundCommand (''sh: foo: not found'' @ [CHR 0x0A]) ''bar baz'' = ''bar'' \<and>
   parseNotFoundCommand (''sh: foo: not found'' @ [CHR 0x0A]) ''bar baz'' = ''foo''"
  by code_simp

declare stripRunes.simps [simp del] FieldsFrom.simps [simp del]

lemma runeLen_spaceRunes_Nil: "runeLen spaceRunes [] = 0"
  by (simp add: runeLen_def spaceRunes_def asciiSpace_def unicodeSpace_def)

lemma FieldsFrom_empty_iff:
  "FieldsFrom cur s = [] \<longleftrightarrow> cur = [] \<and> stripRunes spaceRunes s = []"
proof (induction cur s rule: FieldsFrom.induct)
  case (1 cur s)
  show ?case
  proof (cases "s = []")
    case True
    then show ?thesis
      by (simp add: FieldsFrom.simps [of cur "[]"] stripRunes.simps [of spaceRunes "[]"]
          runeLen_spaceRunes_Nil)
  next
    case False
    show ?thesis
    proof (cases "runeLen spaceRunes s = 0")
      case True
      with False have "FieldsFrom cur s = FieldsFrom (cur @ [hd s]) (tl s)"
        by (simp add: FieldsFrom.simps [of cur s])
      moreover have "FieldsFrom (cur @ [hd s]) (tl s) \<noteq> []"
        using "1.IH"(2) [OF False] True by simp
      moreover have "stripRunes spaceRunes s = s"
        using True by (simp add: stripRunes.simps [of spaceRunes s])
      ultimately show ?thesis
        using False by simp
    next
      case nz: False
      with False have "FieldsFrom cur s =
          (if cur = [] then [] else [cur]) @ FieldsFrom [] (drop (runeLen spaceRunes s) s)"
        by (simp add: FieldsFrom.simps [of cur s])
      moreover have "stripRunes spaceRunes s = stripRunes spaceRunes (drop (runeLen spaceRunes s) s)"
        using nz by (simp add: stripRunes.simps [of spaceRunes s])
      ultimately show ?thesis
        using "1.IH"(1) [OF False] nz by simp
    qed
  qed
qed

text \<open>A string has no field exactly when it consists of space runes only.\<close>

lemma Fields_empty_iff: "Fields s = [] \<longleftrightarrow> TrimLeftSpace s = []"
  by (simp add: Fields_def TrimLeftSpace_def FieldsFrom_empty_iff)

text \<open>What \<open>RunCommand\<close> returns and what it writes, field by field.\<close>

lemma RunCommand_err: "snd (RunCommand h command w) = runErr (sh h command)"
  by (simp add: RunCommand_def Let_def split: option.splits)

lemma RunCommand_stdout:
  "osStdout (fst (RunCommand h command w)) = osStdout w @ [CHR 0x0A] @ childStdout (sh h command)"
  by (simp add: RunCommand_def Let_def split: option.splits)

lemma RunCommand_executed:
  "executed (fst (RunCommand h command w)) = executed w @ [command]"
  by (simp add: RunCommand_def Let_def split: option.splits)

lemma RunCommand_stderr:
  "osStderr (fst (RunCommand h command w)) =
     osStderr w @ childStderr (sh h command) @
     (case runErr (sh h command) of
        None \<Rightarrow> []
      | Some e \<Rightarrow>
          if asExitError e = Some 127 \<and>
             parseNotFoundCommand (childStderr (sh h command)) command \<noteq> []
          then hintText h (parseNotFoundCommand (childStderr (sh h command)) command)
          else [])"
  by (simp add: RunCommand_def Let_def split: option.splits)

text \<open>
  Claim C7. For every command, \<open>RunCommand\<close> returns the error of the child process
  as \<open>cmd.Run\<close> produced it, nil included, whatever the exit status; the process's
  standard output receives a newline and the child's output; the error stream receives
  the child's error text, followed by the install hint or by nothing.
\<close>

theorem RunCommand_returns_run_error:
  "snd (RunCommand h command w) = runErr (sh h command) \<and>
   osStdout (fst (RunCommand h command w)) =
     osStdout w @ [CHR 0x0A] @ childStdout (sh h command) \<and>
   (osStderr (fst (RunCommand h command w)) = osStderr w @ childStderr (sh h command) \<or>
    osStderr (fst (RunCommand h command w)) =
      osStderr w @ childStderr (sh h command) @
      hintText h (parseNotFoundCommand (childStderr (sh h command)) command))"
  by (simp add: RunCommand_err RunCommand_stdout RunCommand_stderr split: option.splits)

theorem RunCommand_returns_run_error_witness:
  "snd (RunCommand (exampleHost ''linux'' [''dnf'']) ''ss -tuln'' emptyWorld)
     = Some (ExitError 127) \<and>
   snd (RunCommand (exampleHost ''linux'' [''dnf'']) ''ls'' emptyWorld) = None \<and>
   osStderr (fst (RunCommand (exampleHost ''linux'' [''dnf'']) ''ss -tuln'' emptyWorld))
     = ''sh: ss: command not found'' @ [CHR 0x0A] @ [CHR 0x0A] @
       ''  Hint: ss is not installed.'' @ [CHR 0x0A] @
       ''  Install with: sudo dnf install ss'' @ [CHR 0x0A]"
proof -
  let ?h = "exampleHost ''linux'' [''dnf'']"
  have a: "runErr (sh ?h ''ss -tuln'') = Some (ExitError 127)"
    by (simp add: exampleHost_def exampleChild_def)
  have b: "runErr (sh ?h ''ls'') = None"
    by (simp add: exampleHost_def exampleChild_def)
  have c: "osStderr (fst (RunCommand ?h ''ss -tuln'' emptyWorld))
     = ''sh: ss: command not found'' @ [CHR 0x0A] @ [CHR 0x0A] @
       ''  Hint: ss is not installed.'' @ [CHR 0x0A] @
       ''  Install with: sudo dnf install ss'' @ [CHR 0x0A]"
    by code_simp
  show ?thesis
    using RunCommand_returns_run_error [of ?h "''ss -tuln''" emptyWorld]
      RunCommand_returns_run_error [of ?h "''ls''" emptyWorld] a b c
    by simp
qed

text \<open>
  Claim C10. When the command exits with status 127, its error text contains no message
  of the sh/bash form and none of the zsh form, and the command string has no
  whitespace-delimited token, then \<open>parseNotFoundCommand\<close> returns the empty string,
  \<open>RunCommand\<close> writes no hint (the error stream receives the child's error text and
  nothing else) and returns the execution error.
\<close>

theorem RunCommand_no_hint:
  assumes "runErr (sh h command) = Some e" and "asExitError e = Some 127"
    and "\<forall>t. \<not> inText shNotFound (childStderr (sh h command)) t"
    and "\<forall>t. \<not> inText zshNotFound (childStderr (sh h command)) t"
    and "Fields command = []"
  shows "parseNotFoundCommand (childStderr (sh h command)) command = [] \<and>
         osStderr (fst (RunCommand h command w)) = osStderr w @ childStderr (sh h command) \<and>
         snd (RunCommand h command w) = Some e"
proof -
  have "parseNotFoundCommand (childStderr (sh h command)) command = []"
    using parseNotFoundCommand_fallback [OF assms(3,4), of command] assms(5)
    by (simp add: firstField_def)
  then show ?thesis
    using assms(1,2) by (simp add: RunCommand_err RunCommand_stderr)
qed

theorem RunCommand_no_hint_witness:
  "runErr (sh (exampleHost ''linux'' [''apt'']) ''  '') = Some (ExitError 127) \<and>
   asExitError (ExitError 127) = Some 127 \<and>
   (\<forall>t. \<not> inText shNotFound (childStderr (sh (exampleHost ''linux'' [''apt'']) ''  '')) t) \<and>
   (\<forall>t. \<not> inText zshNotFound (childStderr (sh (exampleHost ''linux'' [''apt'']) ''  '')) t) \<and>
   Fields ''  '' = [] \<and>
   parseNotFoundCommand (childStderr (sh (exampleHost ''linux'' [''apt'']) ''  '')) ''  '' = [] \<and>
   osStderr (fst (RunCommand (exampleHost ''linux'' [''apt'']) ''  '' emptyWorld))
     = ''some unexpected error'' @ [CHR 0x0A] \<and>
   snd (RunCommand (exampleHost ''linux'' [''apt'']) ''  '' emptyWorld) = Some (ExitError 127)"
proof -
  let ?h = "exampleHost ''linux'' [''apt'']"
  let ?c = "''some unexpected error'' @ [CHR 0x0A]"
  have s: "sh ?h ''  '' = \<lparr>childStdout = [], childStderr = ?c, runErr = Some (ExitError 127)\<rparr>"
    by (simp add: exampleHost_def exampleChild_def)
  have "FindStringSubmatch notFoundRe ?c = []"
    by code_simp
  then have c1: "\<forall>t. \<not> inText shNotFound ?c t"
    using find_sh [of ?c] by auto
  have "FindStringSubmatch notFoundZshRe ?c = []"
    by code_simp
  then have c2: "\<forall>t. \<not> inText zshNotFound ?c t"
    using find_zsh [of ?c] by auto
  have f: "Fields ''  '' = []"
    by code_simp
  have w: "osStderr emptyWorld = []"
    by (simp add: emptyWorld_def)
  show ?thesis
    using RunCommand_no_hint [of ?h "''  ''" "ExitError 127" emptyWorld] s c1 c2 f w
    by simp
qed

text \<open>
  Claim C8. On macOS the hint suggests \<open>brew install\<close>; on Linux it suggests the
  install command of \<open>apt\<close>, else of \<open>dnf\<close>, else of \<open>pacman\<close>, whichever is first found
  on the search path in that order, and the generic message when none is; on any other
  platform it is the generic message.
\<close>

theorem installSuggestion_by_platform:
  "(GOOS h = ''darwin'' \<longrightarrow>
      installSuggestion h name = ''Install with: brew install '' @ name) \<and>
   (GOOS h = ''linux'' \<and> LookPath h ''apt'' \<longrightarrow>
      installSuggestion h name = ''Install with: sudo apt install '' @ name) \<and>
   (GOOS h = ''linux'' \<and> \<not> LookPath h ''apt'' \<and> LookPath h ''dnf'' \<longrightarrow>
      installSuggestion h name = ''Install with: sudo dnf install '' @ name) \<and>
   (GOOS h = ''linux'' \<and> \<not> LookPath h ''apt'' \<and> \<not> LookPath h ''dnf'' \<and> LookPath h ''pacman'' \<longrightarrow>
      installSuggestion h name = ''Install with: sudo pacman -S '' @ name) \<and>
   (GOOS h = ''linux'' \<and> \<not> LookPath h ''apt'' \<and> \<not> LookPath h ''dnf'' \<and> \<not> LookPath h ''pacman'' \<longrightarrow>
      installSuggestion h name = ''Install '' @ name @ '' using your system package manager'') \<and>
   (GOOS h \<noteq> ''darwin'' \<and> GOOS h \<noteq> ''linux'' \<longrightarrow>
      installSuggestion h name = ''Install '' @ name @ '' using your system package manager'')"
  by (simp add: installSuggestion_def)

theorem installSuggestion_by_platform_witness:
  "installSuggestion (exampleHost ''darwin'' [''apt'']) ''ripgrep''
     = ''Install with: brew install ripgrep'' \<and>
   installSuggestion (exampleHost ''linux'' [''pacman'', ''dnf'', ''apt'']) ''ripgrep''
     = ''Install with: sudo apt install ripgrep'' \<and>
   installSuggestion (exampleHost ''linux'' [''pacman'', ''dnf'']) ''ripgrep''
     = ''Install with: sudo dnf install ripgrep'' \<and>
   installSuggestion (exampleHost ''linux'' [''pacman'']) ''ripgrep''
     = ''Install with: sudo pacman -S ripgrep'' \<and>
   installSuggestion (exampleHost ''linux'' []) ''ripgrep''
     = ''Install ripgrep using your system package manager'' \<and>
   installSuggestion (exampleHost ''windows'' [''apt'']) ''ripgrep''
     = ''Install ripgrep using your system package manager''"
  using installSuggestion_by_platform [of "exampleHost ''darwin'' [''apt'']" "''ripgrep''"]
    installSuggestion_by_platform [of "exampleHost ''linux'' [''pacman'', ''dnf'', ''apt'']" "''ripgrep''"]
    installSuggestion_by_platform [of "exampleHost ''linux'' [''pacman'', ''dnf'']" "''ripgrep''"]
    installSuggestion_by_platform [of "exampleHost ''linux'' [''pacman'']" "''ripgrep''"]
    installSuggestion_by_platform [of "exampleHost ''linux'' []" "''ripgrep''"]
    installSuggestion_by_platform [of "exampleHost ''windows'' [''apt'']" "''ripgrep''"]
  by (simp add: exampleHost_def)

text \<open>
  Claim C6. For a line read successfully, \<open>ConfirmAndRun\<close> executes the command exactly
  when the line, lower-cased and trimmed of whitespace, is \<open>y\<close> or \<open>yes\<close>, and then it
  is \<open>RunCommand\<close> after the prompt; for every other line, the empty one included,
  nothing is executed and the result is nil.
\<close>

theorem ConfirmAndRun_yes_only:
  "(executed (fst (ConfirmAndRun h (Inr input) command w)) = executed w @ [command]
      \<longleftrightarrow> answer h input = ''y'' \<or> answer h input = ''yes'') \<and>
   (answer h input = ''y'' \<or> answer h input = ''yes'' \<longrightarrow>
      ConfirmAndRun h (Inr input) command w = RunCommand h command (prompted w)) \<and>
   (answer h input \<noteq> ''y'' \<and> answer h input \<noteq> ''yes'' \<longrightarrow>
      ConfirmAndRun h (Inr input) command w = (prompted w, None))"
  by (auto simp: ConfirmAndRun_def Let_def answer_def prompted_def RunCommand_executed)

theorem ConfirmAndRun_yes_only_witness:
  "answer (exampleHost ''linux'' []) ('' YES '' @ [CHR 0x0A]) = ''yes'' \<and>
   executed (fst (ConfirmAndRun (exampleHost ''linux'' []) (Inr ('' YES '' @ [CHR 0x0A])) ''ls''
     emptyWorld)) = [''ls''] \<and>
   answer (exampleHost ''linux'' []) (''Y'' @ [CHR 0x0A]) = ''y'' \<and>
   executed (fst (ConfirmAndRun (exampleHost ''linux'' []) (Inr (''Y'' @ [CHR 0x0A])) ''ls''
     emptyWorld)) = [''ls''] \<and>
   answer (exampleHost ''linux'' []) [CHR 0x0A] = [] \<and>
   ConfirmAndRun (exampleHost ''linux'' []) (Inr [CHR 0x0A]) ''ls'' emptyWorld
     = (prompted emptyWorld, None) \<and>
   answer (exampleHost ''linux'' []) (''n'' @ [CHR 0x0A]) = ''n'' \<and>
   ConfirmAndRun (exampleHost ''linux'' []) (Inr (''n'' @ [CHR 0x0A])) ''ls'' emptyWorld
     = (prompted emptyWorld, None) \<and>
   answer (exampleHost ''linux'' []) (''yes please'' @ [CHR 0x0A]) = ''yes please'' \<and>
   ConfirmAndRun (exampleHost ''linux'' []) (Inr (''yes please'' @ [CHR 0x0A])) ''ls'' emptyWorld
     = (prompted emptyWorld, None)"
proof -
  let ?h = "exampleHost ''linux'' []"
  have a: "answer ?h ('' YES '' @ [CHR 0x0A]) = ''yes''"
    by code_simp
  have b: "answer ?h (''Y'' @ [CHR 0x0A]) = ''y''"
    by code_simp
  have c: "answer ?h [CHR 0x0A] = []"
    by code_simp
  have d: "answer ?h (''n'' @ [CHR 0x0A]) = ''n''"
    by code_simp
  have e: "answer ?h (''yes please'' @ [CHR 0x0A]) = ''yes please''"
    by code_simp
  have w: "executed emptyWorld = []"
    by (simp add: emptyWorld_def)
  have 1: "executed (fst (ConfirmAndRun ?h (Inr ('' YES '' @ [CHR 0x0A])) ''ls'' emptyWorld))
      = [''ls'']"
  proof -
    have "executed (fst (ConfirmAndRun ?h (Inr ('' YES '' @ [CHR 0x0A])) ''ls'' emptyWorld))
        = executed emptyWorld @ [''ls'']"
      using ConfirmAndRun_yes_only [of ?h "'' YES '' @ [CHR 0x0A]" "''ls''" emptyWorld] a
      by blast
    then show ?thesis
      by (simp add: w)
  qed
  have 2: "executed (fst (ConfirmAndRun ?h (Inr (''Y'' @ [CHR 0x0A])) ''ls'' emptyWorld))
      = [''ls'']"
  proof -
    have "executed (fst (ConfirmAndRun ?h (Inr (''Y'' @ [CHR 0x0A])) ''ls'' emptyWorld))
        = executed emptyWorld @ [''ls'']"
      using ConfirmAndRun_yes_only [of ?h "''Y'' @ [CHR 0x0A]" "''ls''" emptyWorld] b
      by blast
    then show ?thesis
      by (simp add: w)
  qed
  have 3: "ConfirmAndRun ?h (Inr [CHR 0x0A]) ''ls'' emptyWorld = (prompted emptyWorld, None)"
    using ConfirmAndRun_yes_only [of ?h "[CHR 0x0A]" "''ls''" emptyWorld] c
    by simp
  have 4: "ConfirmAndRun ?h (Inr (''n'' @ [CHR 0x0A])) ''ls'' emptyWorld
      = (prompted emptyWorld, None)"
    using ConfirmAndRun_yes_only [of ?h "''n'' @ [CHR 0x0A]" "''ls''" emptyWorld] d
    by simp
  have 5: "ConfirmAndRun ?h (Inr (''yes please'' @ [CHR 0x0A])) ''ls'' emptyWorld
      = (prompted emptyWorld, None)"
    using ConfirmAndRun_yes_only [of ?h "''yes please'' @ [CHR 0x0A]" "''ls''" emptyWorld] e
    by simp
  show ?thesis
    using a b c d e 1 2 3 4 5 by blast
qed

section \<open>Properties of the shell history writer\<close>

text \<open>
  A number printed in decimal is a non-empty run of digits, and the lines that the
  extended pattern matches are those of the form \<open>extendedLine\<close>.
\<close>

lemma digitChar: "k < 10 \<Longrightarrow> inClass Digit (''0123456789'' ! k)"
  unfolding inClass.simps by (rule nth_mem) simp

declare decimal.simps [simp del]

lemma decimal_digits: "digits (decimal n)"
proof (induction n rule: decimal.induct)
  case (1 n)
  show ?case
  proof (cases "n < 10")
    case True
    then show ?thesis
      using digitChar [of n] by (simp add: decimal.simps [of n] digits_def)
  next
    case False
    then show ?thesis
      using "1.IH" digitChar [of "n mod 10"]
      by (simp add: decimal.simps [of n] digits_def)
  qed
qed

lemma sem_zshExtendedRe:
  "(w, g) \<in> sem zshExtendedRe None \<longleftrightarrow>
     (\<exists>d1 d2. w = '': '' @ d1 @ '':'' @ d2 @ '';'' \<and> digits d1 \<and> digits d2) \<and> g = None"
proof
  assume "(w, g) \<in> sem zshExtendedRe None"
  then show "(\<exists>d1 d2. w = '': '' @ d1 @ '':'' @ d2 @ '';'' \<and> digits d1 \<and> digits d2) \<and> g = None"
    unfolding zshExtendedRe_def
    apply (elim Cats_Cons2E)
    apply (drule Cats_singleD)
    apply (simp only: sem_Lit sem_Plus_Digit)
    apply (elim conjE)
    apply hypsubst
    apply (intro exI conjI)
       apply (rule refl | assumption)+
    done
next
  assume "(\<exists>d1 d2. w = '': '' @ d1 @ '':'' @ d2 @ '';'' \<and> digits d1 \<and> digits d2) \<and> g = None"
  then obtain d1 d2 where w: "w = '': '' @ d1 @ '':'' @ d2 @ '';''" and g: "g = None"
    and p: "digits d1" "digits d2"
    by (elim conjE exE)
  show "(w, g) \<in> sem zshExtendedRe None"
    unfolding zshExtendedRe_def w g
    by (intro Cats_Cons2I Cats_singleI) (simp_all only: sem_Lit sem_Plus_Digit p simp_thms)
qed

lemma isExtendedLine_iff: "isExtendedLine l \<longleftrightarrow> extendedLine l"
proof -
  have "isExtendedLine l \<longleftrightarrow> set (run zshExtendedRe l None) \<noteq> {}"
    by (simp add: isExtendedLine_def)
  also have "\<dots> \<longleftrightarrow> (\<exists>u rest g. l = u @ rest \<and> (u, g) \<in> sem zshExtendedRe None)"
    unfolding run_sem by auto
  also have "\<dots> \<longleftrightarrow> (\<exists>d1 d2 rest. l = ('': '' @ d1 @ '':'' @ d2 @ '';'') @ rest \<and>
      digits d1 \<and> digits d2)"
    unfolding sem_zshExtendedRe by blast
  also have "\<dots> \<longleftrightarrow> extendedLine l"
    unfolding extendedLine_def by (simp only: append_assoc)
  finally show ?thesis .
qed

lemma historyEntry_extended: "extendedLine (historyEntry True now command)"
  unfolding extendedLine_def historyEntry_def
proof (intro exI conjI)
  show "(if True then '': '' @ decimal now @ '':0;'' @ command else command)
      = '': '' @ decimal now @ '':'' @ ''0'' @ '';'' @ command"
    by simp
  show "digits (decimal now)"
    by (rule decimal_digits)
  show "digits ''0''"
    by (simp add: digits_def)
qed

text \<open>
  Claim C2. A history file is classified as zsh-extended exactly when it exists and one
  of its lines has the form \<open>: <digits>:<digits>;<anything>\<close>; a file that does not
  exist or is empty is plain. Appending to a writable history file keeps its content and
  adds one line and a newline: \<open>: <epoch-seconds>:0;<command>\<close>, itself a line of the
  extended form, when the file is zsh-extended, and the bare command otherwise.
\<close>

theorem history_format:
  "(isZshExtendedHistory fs path \<longleftrightarrow>
      (\<exists>content. fs path = Some content \<and> list_ex extendedLine (SplitLines content))) \<and>
   (fs path = None \<or> fs path = Some [] \<longrightarrow> \<not> isZshExtendedHistory fs path) \<and>
   (shellHistoryFile e (SHELL e) \<noteq> [] \<and> writable (shellHistoryFile e (SHELL e)) \<longrightarrow>
      addToShellHistory e writable now command fs =
        fs(shellHistoryFile e (SHELL e) \<mapsto>
             (case fs (shellHistoryFile e (SHELL e)) of None \<Rightarrow> [] | Some content \<Rightarrow> content) @
             historyEntry (isZshExtendedHistory fs (shellHistoryFile e (SHELL e))) now command @
             [CHR 0x0A])) \<and>
   historyEntry True now command = '': '' @ decimal now @ '':0;'' @ command \<and>
   extendedLine (historyEntry True now command) \<and>
   historyEntry False now command = command"
proof -
  have a: "isZshExtendedHistory fs path \<longleftrightarrow>
      (\<exists>content. fs path = Some content \<and> list_ex extendedLine (SplitLines content))"
    by (cases "fs path") (simp_all add: isZshExtendedHistory_def isExtendedLine_iff [abs_def])
  have "\<not> isExtendedLine []"
    by code_simp
  then have b: "fs path = None \<or> fs path = Some [] \<longrightarrow> \<not> isZshExtendedHistory fs path"
    by (auto simp: isZshExtendedHistory_def)
  have c: "shellHistoryFile e (SHELL e) \<noteq> [] \<and> writable (shellHistoryFile e (SHELL e)) \<longrightarrow>
      addToShellHistory e writable now command fs =
        fs(shellHistoryFile e (SHELL e) \<mapsto>
             (case fs (shellHistoryFile e (SHELL e)) of None \<Rightarrow> [] | Some content \<Rightarrow> content) @
             historyEntry (isZshExtendedHistory fs (shellHistoryFile e (SHELL e))) now command @
             [CHR 0x0A])"
    by (simp add: addToShellHistory_def Let_def)
  have d: "historyEntry True now command = '': '' @ decimal now @ '':0;'' @ command"
    "historyEntry False now command = command"
    by (simp_all add: historyEntry_def)
  from a b c d historyEntry_extended [of now command] show ?thesis
    by blast
qed

theorem history_format_witness:
  "isZshExtendedHistory zshHistory ''/tmp/h'' \<and>
   addToShellHistory (exampleEnv ''/bin/zsh'' ''/tmp/h'') (\<lambda>p. True) 1700000123 ''git status''
       zshHistory ''/tmp/h''
     = Some ('': 1700000000:0;ls -la'' @ [CHR 0x0A] @
             '': 1700000123:0;git status'' @ [CHR 0x0A]) \<and>
   \<not> isZshExtendedHistory plainHistory ''/tmp/h'' \<and>
   addToShellHistory (exampleEnv ''/bin/bash'' ''/tmp/h'') (\<lambda>p. True) 1700000123 ''git status''
       plainHistory ''/tmp/h''
     = Some (''ls'' @ [CHR 0x0A] @ ''pwd'' @ [CHR 0x0A] @ ''git status'' @ [CHR 0x0A]) \<and>
   \<not> isZshExtendedHistory Map.empty ''/tmp/h'' \<and>
   addToShellHistory (exampleEnv ''/bin/zsh'' ''/tmp/h'') (\<lambda>p. True) 1700000123 ''git status''
       Map.empty ''/tmp/h''
     = Some (''git status'' @ [CHR 0x0A])"
proof -
  let ?z = "exampleEnv ''/bin/zsh'' ''/tmp/h''"
  let ?b = "exampleEnv ''/bin/bash'' ''/tmp/h''"
  have f: "shellHistoryFile ?z (SHELL ?z) = ''/tmp/h''" "shellHistoryFile ?b (SHELL ?b) = ''/tmp/h''"
    by (simp_all add: shellHistoryFile_def exampleEnv_def)
  have c: "zshHistory ''/tmp/h'' = Some ('': 1700000000:0;ls -la'' @ [CHR 0x0A])"
    "plainHistory ''/tmp/h'' = Some (''ls'' @ [CHR 0x0A] @ ''pwd'' @ [CHR 0x0A])"
    by (simp_all add: zshHistory_def plainHistory_def)
  have x: "isZshExtendedHistory zshHistory ''/tmp/h''"
    unfolding isZshExtendedHistory_def c by code_simp
  have p: "\<not> isZshExtendedHistory plainHistory ''/tmp/h''"
    unfolding isZshExtendedHistory_def c by code_simp
  have n: "\<not> isZshExtendedHistory Map.empty ''/tmp/h''"
    using history_format [of Map.empty "''/tmp/h''"] by simp
  have d: "decimal 1700000123 = ''1700000123''"
    by (simp add: decimal.simps)
  have 1: "addToShellHistory ?z (\<lambda>p. True) 1700000123 ''git status'' zshHistory ''/tmp/h''
     = Some ('': 1700000000:0;ls -la'' @ [CHR 0x0A] @
             '': 1700000123:0;git status'' @ [CHR 0x0A])"
    using history_format [of zshHistory "''/tmp/h''" ?z "\<lambda>p. True" 1700000123 "''git status''"]
    by (simp add: f c x d)
  have 2: "addToShellHistory ?b (\<lambda>p. True) 1700000123 ''git status'' plainHistory ''/tmp/h''
     = Some (''ls'' @ [CHR 0x0A] @ ''pwd'' @ [CHR 0x0A] @ ''git status'' @ [CHR 0x0A])"
    using history_format [of plainHistory "''/tmp/h''" ?b "\<lambda>p. True" 1700000123 "''git status''"]
    by (simp add: f c p)
  have 3: "addToShellHistory ?z (\<lambda>p. True) 1700000123 ''git status'' Map.empty ''/tmp/h''
     = Some (''git status'' @ [CHR 0x0A])"
    using history_format [of Map.empty "''/tmp/h''" ?z "\<lambda>p. True" 1700000123 "''git status''"]
    by (simp add: f n)
  from x p n 1 2 3 show ?thesis
    by blast
qed

lemma not_zsh_and_bash: "suffix ''bash'' shell \<Longrightarrow> \<not> suffix ''zsh'' shell"
proof
  assume "suffix ''bash'' shell" "suffix ''zsh'' shell"
  then have "suffix ''bash'' ''zsh'' \<or> suffix ''zsh'' ''bash''"
    using suffix_same_cases by blast
  then show False
    by (simp add: suffix_def)
qed

text \<open>
  Claim C5. A history file override in the environment is used verbatim, whatever the
  shell; without it, a shell path ending in \<open>zsh\<close> gives \<open>~/.zsh_history\<close> and one ending
  in \<open>bash\<close> gives \<open>~/.bash_history\<close>; any other shell gives no history file, and then
  appending to the history changes nothing.
\<close>

theorem history_file_resolution:
  "(HISTFILE e \<noteq> [] \<longrightarrow> shellHistoryFile e shell = HISTFILE e) \<and>
   (HISTFILE e = [] \<and> suffix ''zsh'' shell \<longrightarrow>
      shellHistoryFile e shell = HOME e @ ''/.zsh_history'') \<and>
   (HISTFILE e = [] \<and> suffix ''bash'' shell \<longrightarrow>
      shellHistoryFile e shell = HOME e @ ''/.bash_history'') \<and>
   (HISTFILE e = [] \<and> \<not> suffix ''zsh'' shell \<and> \<not> suffix ''bash'' shell \<longrightarrow>
      shellHistoryFile e shell = []) \<and>
   (HISTFILE e = [] \<and> \<not> suffix ''zsh'' (SHELL e) \<and> \<not> suffix ''bash'' (SHELL e) \<longrightarrow>
      addToShellHistory e writable now command fs = fs)"
  using not_zsh_and_bash [of shell]
  by (auto simp: shellHistoryFile_def addToShellHistory_def)

theorem history_file_resolution_witness:
  "shellHistoryFile (exampleEnv ''/bin/zsh'' '''') ''/bin/zsh'' = ''/home/u/.zsh_history'' \<and>
   shellHistoryFile (exampleEnv ''/bin/bash'' '''') ''/bin/bash'' = ''/home/u/.bash_history'' \<and>
   shellHistoryFile (exampleEnv ''/bin/zsh'' ''/tmp/my_history'') ''/bin/zsh''
     = ''/tmp/my_history'' \<and>
   shellHistoryFile (exampleEnv ''/bin/fish'' '''') ''/bin/fish'' = [] \<and>
   addToShellHistory (exampleEnv ''/bin/fish'' '''') (\<lambda>p. True) 1700000123 ''git status''
     plainHistory = plainHistory"
proof -
  have s: "suffix ''zsh'' ''/bin/zsh''" "suffix ''bash'' ''/bin/bash''"
    "\<not> suffix ''zsh'' ''/bin/fish''" "\<not> suffix ''bash'' ''/bin/fish''"
    by code_simp+
  show ?thesis
    using history_file_resolution [of "exampleEnv ''/bin/zsh'' ''''" "''/bin/zsh''"]
      history_file_resolution [of "exampleEnv ''/bin/bash'' ''''" "''/bin/bash''"]
      history_file_resolution [of "exampleEnv ''/bin/zsh'' ''/tmp/my_history''" "''/bin/zsh''"]
      history_file_resolution [of "exampleEnv ''/bin/fish'' ''''" "''/bin/fish''"
        "\<lambda>p. True" 1700000123 "''git status''" plainHistory]
      s
    by (simp add: exampleEnv_def)
qed

end
